theory Spec2Isabelle
  imports
    Main
    "HOL-Library.Word"
    "HOL-Library.AList"
    "HOL-Library.Char_ord"
    "HOL-Library.List_Lexorder"
begin

unbundle bit_operations_syntax

section \<open>Shared types: bytes, errors, slices\<close>

text \<open>
  Go's \<open>byte\<close>, \<open>uint16\<close> and \<open>uint32\<close> are words of that width; Go's \<open>int\<close> holds
  lengths and offsets, which stay far below its range here, so they are \<open>nat\<close>.
  A Go \<open>string\<close> is a sequence of bytes, as an Isabelle \<open>string\<close> is.
\<close>

type_synonym byte = "8 word"

datatype role = RoleTransient | RoleDestination

text \<open>Errors of the mapping library and of \<open>strconv.ParseUint\<close>, as values.\<close>

datatype mapping_error =
    SizeMismatch nat nat
  | MalformedPair nat
  | KeyTooLong string
  | ValueTooLong string
  | InvalidString

datatype num_error = ErrSyntax | ErrRange

text \<open>
  One constructor for each \<open>fmt.Errorf\<close> of the package, with the values the message
  prints, and \<open>Panic\<close> for a run-time fault (an index or slice out of range, a nil
  dereference).
\<close>

datatype error =
    Panic
  | OfflineTooShort nat nat
  | OfflineUnknownSigType role "16 word"
  | OptionsTooShort nat nat
  | OptionsParseFailed mapping_error
  | OptionsCreateFailed mapping_error
  | EmptyAddress
  | InvalidPort string num_error

definition and_then :: "error + 'a \<Rightarrow> ('a \<Rightarrow> error + 'b) \<Rightarrow> error + 'b" where
  "and_then r f = (case r of Inl e \<Rightarrow> Inl e | Inr x \<Rightarrow> f x)"

text \<open>
  \<open>s[lo:hi]\<close>: a slice expression panics unless \<open>lo \<le> hi \<le> cap(s)\<close>. The model checks
  against the length, which is never more than the capacity.
\<close>

definition slice :: "'a list \<Rightarrow> nat \<Rightarrow> nat \<Rightarrow> error + 'a list" where
  "slice xs lo hi =
     (if lo \<le> hi \<and> hi \<le> length xs then Inr (take (hi - lo) (drop lo xs)) else Inl Panic)"

text \<open>The builtin \<open>copy(dst, src)\<close> overwrites the first \<open>min(len(dst), len(src))\<close> elements.\<close>

definition go_copy :: "'a list \<Rightarrow> 'a list \<Rightarrow> 'a list" where
  "go_copy dst src =
     take (min (length dst) (length src)) src @ drop (min (length dst) (length src)) dst"

text \<open>
  A write through the sub-slice \<open>buf[lo:hi]\<close> changes \<open>buf\<close> itself: \<open>f\<close> is what the
  callee does to the sub-slice.
\<close>

definition with_slice ::
  "byte list \<Rightarrow> nat \<Rightarrow> nat \<Rightarrow> (byte list \<Rightarrow> error + byte list) \<Rightarrow> error + byte list" where
  "with_slice buf lo hi f =
     and_then (slice buf lo hi) (\<lambda>sub.
     and_then (f sub) (\<lambda>sub'. Inr (take lo buf @ sub' @ drop hi buf)))"

subsection \<open>\<open>encoding/binary\<close>, big endian\<close>

definition BigEndian_Uint32 :: "byte list \<Rightarrow> error + 32 word" where
  "BigEndian_Uint32 b =
     (if length b < 4 then Inl Panic
      else Inr (ucast (b ! 3) OR push_bit 8 (ucast (b ! 2)) OR
                push_bit 16 (ucast (b ! 1)) OR push_bit 24 (ucast (b ! 0))))"

definition BigEndian_Uint16 :: "byte list \<Rightarrow> error + 16 word" where
  "BigEndian_Uint16 b =
     (if length b < 2 then Inl Panic
      else Inr (ucast (b ! 1) OR push_bit 8 (ucast (b ! 0))))"

definition BigEndian_PutUint32 :: "32 word \<Rightarrow> byte list \<Rightarrow> error + byte list" where
  "BigEndian_PutUint32 v b =
     (if length b < 4 then Inl Panic
      else Inr (b[0 := ucast (drop_bit 24 v), 1 := ucast (drop_bit 16 v),
                  2 := ucast (drop_bit 8 v), 3 := ucast v]))"

definition BigEndian_PutUint16 :: "16 word \<Rightarrow> byte list \<Rightarrow> error + byte list" where
  "BigEndian_PutUint16 v b =
     (if length b < 2 then Inl Panic
      else Inr (b[0 := ucast (drop_bit 8 v), 1 := ucast v]))"

section \<open>The offline signature block\<close>

text \<open>
  \<open>time.Time\<close>, as far as the package reads it: the seconds since the epoch (what
  \<open>Unix()\<close> returns) and the nanoseconds within the second. The location is not
  modelled.
\<close>

record Time =
  unix_sec :: int
  nsec :: int

definition time_Unix :: "int \<Rightarrow> int \<Rightarrow> Time" where
  "time_Unix s n = \<lparr>unix_sec = s + n div 1000000000, nsec = n mod 1000000000\<rparr>"

definition Unix :: "Time \<Rightarrow> int" where
  "Unix t = unix_sec t"

record OfflineSignature =
  Expires :: Time
  TransientSigType :: "16 word"
  TransientPublicKey :: "byte list"
  Signature :: "byte list"

definition publicKeyLengthForSigType :: "16 word \<Rightarrow> nat" where
  "publicKeyLengthForSigType sigType =
     (if sigType = 0 then 128
      else if sigType = 1 then 64
      else if sigType = 2 then 96
      else if sigType = 3 then 132
      else if sigType = 7 then 32
      else if sigType = 11 then 32
      else 0)"

definition signatureLengthForSigType :: "16 word \<Rightarrow> nat" where
  "signatureLengthForSigType sigType =
     (if sigType = 0 then 40
      else if sigType = 1 then 64
      else if sigType = 2 then 96
      else if sigType = 3 then 132
      else if sigType = 7 then 64
      else if sigType = 11 then 64
      else 0)"

text \<open>\<open>OfflineSignatureFromBytes\<close>: the value and the number of bytes consumed, or the error.\<close>

definition OfflineSignatureFromBytes ::
  "byte list \<Rightarrow> 16 word \<Rightarrow> error + (OfflineSignature \<times> nat)" where
  "OfflineSignatureFromBytes data destSigType =
     (if length data < 6 then Inl (OfflineTooShort 6 (length data))
      else
        and_then (slice data 0 4) (\<lambda>b4.
        and_then (BigEndian_Uint32 b4) (\<lambda>expiresSec.
        let expires = time_Unix (uint expiresSec) 0 in
        and_then (slice data 4 6) (\<lambda>b2.
        and_then (BigEndian_Uint16 b2) (\<lambda>transientSigType.
        let transientKeyLen = publicKeyLengthForSigType transientSigType in
        if transientKeyLen = 0 then Inl (OfflineUnknownSigType RoleTransient transientSigType)
        else
          let authSigLen = signatureLengthForSigType destSigType in
          if authSigLen = 0 then Inl (OfflineUnknownSigType RoleDestination destSigType)
          else
            let totalLen = 6 + transientKeyLen + authSigLen in
            if length data < totalLen then Inl (OfflineTooShort totalLen (length data))
            else
              let offset = 6 in
              and_then (slice data offset (offset + transientKeyLen)) (\<lambda>s1.
              let transientKey = go_copy (replicate transientKeyLen 0) s1;
                  offset = offset + transientKeyLen in
              and_then (slice data offset (offset + authSigLen)) (\<lambda>s2.
              let signature = go_copy (replicate authSigLen 0) s2 in
              Inr (\<lparr>Expires = expires, TransientSigType = transientSigType,
                     TransientPublicKey = transientKey, Signature = signature\<rparr>,
                   totalLen))))))))"

text \<open>\<open>(*OfflineSignature).Bytes\<close>, on a value that is there.\<close>

definition OfflineSignature_Bytes :: "OfflineSignature \<Rightarrow> error + byte list" where
  "OfflineSignature_Bytes v =
     (let totalLen = 6 + length (TransientPublicKey v) + length (Signature v);
          result = replicate totalLen 0 in
      and_then (with_slice result 0 4 (BigEndian_PutUint32 (word_of_int (Unix (Expires v)))))
        (\<lambda>result.
      and_then (with_slice result 4 6 (BigEndian_PutUint16 (TransientSigType v))) (\<lambda>result.
      let offset = 6 in
      and_then (with_slice result offset (length result)
                  (\<lambda>sub. Inr (go_copy sub (TransientPublicKey v)))) (\<lambda>result.
      let offset = offset + length (TransientPublicKey v) in
      and_then (with_slice result offset (length result)
                  (\<lambda>sub. Inr (go_copy sub (Signature v)))) (\<lambda>result.
      Inr result)))))"

definition OfflineSignature_Len :: "OfflineSignature \<Rightarrow> nat" where
  "OfflineSignature_Len v = 6 + length (TransientPublicKey v) + length (Signature v)"

text \<open>
  The two header fields as the wire layout gives them: bytes 0 to 3 and bytes 4 to 5,
  big endian. They state what the decoder reads.
\<close>

definition wire_sigtype :: "byte list \<Rightarrow> 16 word" where
  "wire_sigtype data = ucast (data ! 5) OR push_bit 8 (ucast (data ! 4))"

definition wire_expires :: "byte list \<Rightarrow> 32 word" where
  "wire_expires data = ucast (data ! 3) OR push_bit 8 (ucast (data ! 2)) OR
                push_bit 16 (ucast (data ! 1)) OR push_bit 24 (ucast (data ! 0))"

section \<open>The address parser\<close>

record I2PAddr =
  Destination :: string
  Port :: "16 word"

text \<open>
  \<open>strings.Split(s, sep)\<close> for a separator of one byte: the substrings between the
  separators, one more than there are separators. \<open>cur\<close> is the segment being read.
\<close>

fun split_from :: "string \<Rightarrow> char \<Rightarrow> string \<Rightarrow> string list" where
  "split_from cur sep [] = [cur]"
| "split_from cur sep (c # cs) =
     (if c = sep then cur # split_from [] sep cs else split_from (cur @ [c]) sep cs)"

definition Split :: "string \<Rightarrow> char \<Rightarrow> string list" where
  "Split s sep = split_from [] sep s"

text \<open>\<open>strings.Join(elems, sep)\<close>.\<close>

fun Join :: "string list \<Rightarrow> string \<Rightarrow> string" where
  "Join [] sep = []"
| "Join [p] sep = p"
| "Join (p # q # ps) sep = p @ sep @ Join (q # ps) sep"

text \<open>
  \<open>strconv.ParseUint(s, base, bitSize)\<close> for an explicit base from 2 to 36 and a bit size
  from 1 to 64 (no sign, no prefix and no underscore is read then). The loop of the library:
  a byte that is no digit or letter, or a digit not below the base, is a syntax error; a
  value that leaves the range is a range error, found at the digit that leaves it. Below
  the cutoff the 64-bit product and sum do not wrap, so they are those of \<open>nat\<close>.
\<close>

definition digit_value :: "char \<Rightarrow> nat option" where
  "digit_value c =
     (let n = (of_char c :: nat); l = n OR 32 in
      if 48 \<le> n \<and> n \<le> 57 then Some (n - 48)
      else if 97 \<le> l \<and> l \<le> 122 then Some (l - 97 + 10)
      else None)"

fun parse_loop :: "nat \<Rightarrow> nat \<Rightarrow> nat \<Rightarrow> nat \<Rightarrow> string \<Rightarrow> num_error + nat" where
  "parse_loop base cutoff maxVal n [] = Inr n"
| "parse_loop base cutoff maxVal n (c # cs) =
     (case digit_value c of
        None \<Rightarrow> Inl ErrSyntax
      | Some d \<Rightarrow>
          if d \<ge> base then Inl ErrSyntax
          else if n \<ge> cutoff then Inl ErrRange
          else
            let n1 = n * base + d in
            if n1 > maxVal then Inl ErrRange
            else parse_loop base cutoff maxVal n1 cs)"

definition ParseUint :: "string \<Rightarrow> nat \<Rightarrow> nat \<Rightarrow> num_error + nat" where
  "ParseUint s base bitSize =
     (if s = [] then Inl ErrSyntax
      else parse_loop base ((2 ^ 64 - 1) div base + 1) (2 ^ bitSize - 1) 0 s)"

text \<open>\<open>xs[i]\<close> panics out of range.\<close>

definition index :: "'a list \<Rightarrow> nat \<Rightarrow> error + 'a" where
  "index xs i = (if i < length xs then Inr (xs ! i) else Inl Panic)"

definition ParseI2PAddr :: "string \<Rightarrow> error + I2PAddr" where
  "ParseI2PAddr addr =
     (if addr = [] then Inl EmptyAddress
      else
        let parts = Split addr (CHR '':'') in
        if length parts = 1 then
          and_then (index parts 0) (\<lambda>p0. Inr \<lparr>Destination = p0, Port = 0\<rparr>)
        else
          and_then (index parts (length parts - 1)) (\<lambda>portStr.
          case ParseUint portStr 10 16 of
            Inl err \<Rightarrow> Inl (InvalidPort portStr err)
          | Inr port \<Rightarrow>
              and_then (slice parts 0 (length parts - 1)) (\<lambda>front.
              let destination = Join front '':'' in
              Inr \<lparr>Destination = destination, Port = word_of_nat port\<rparr>)))"

text \<open>
  A base-10 unsigned integer as a string: decimal digits only, and the number they write.
\<close>

definition is_digit :: "char \<Rightarrow> bool" where
  "is_digit c = (CHR ''0'' \<le> c \<and> c \<le> CHR ''9'')"

definition decimal_value :: "string \<Rightarrow> nat" where
  "decimal_value p = foldl (\<lambda>n c. n * 10 + (of_char c - 48)) 0 p"

section \<open>Go maps in a store\<close>

text \<open>
  A Go map is a reference: \<open>ToMap\<close> and \<open>NewOptions\<close> copy maps so that the copies do not
  share. The store holds the content of every map made so far, a list of entries with one
  entry for a key; a reference is \<open>None\<close> for the nil map or the index of the content.
\<close>

type_synonym gomap = "(string \<times> string) list"
type_synonym heap = "gomap list"
type_synonym mapref = "nat option"

definition make_map :: "heap \<Rightarrow> heap \<times> nat" where
  "make_map h = (h @ [[]], length h)"

definition cell :: "heap \<Rightarrow> nat \<Rightarrow> gomap" where
  "cell h a = (if a < length h then h ! a else [])"

text \<open>Reading a nil map is reading an empty map.\<close>

definition deref :: "heap \<Rightarrow> mapref \<Rightarrow> gomap" where
  "deref h r = (case r of None \<Rightarrow> [] | Some a \<Rightarrow> cell h a)"

text \<open>\<open>m[k] = v\<close> on the map at address \<open>a\<close>.\<close>

definition map_store :: "heap \<Rightarrow> nat \<Rightarrow> string \<Rightarrow> string \<Rightarrow> heap" where
  "map_store h a k v = h[a := AList.update k v (cell h a)]"

text \<open>\<open>m[k]\<close>: the value of the key, the empty string when the key is missing (or the map nil).\<close>

definition map_get :: "(string \<times> string) list \<Rightarrow> string \<Rightarrow> string" where
  "map_get m k = (case map_of m k of None \<Rightarrow> [] | Some v \<Rightarrow> v)"

section \<open>The mapping library, from the specification\<close>

text \<open>
  \<open>Options\<close> wraps \<open>data.Mapping\<close> of \<open>github.com/go-i2p/common\<close>, whose source is not part
  of the package. The definitions of this section stand for it; each says which sentence of
  the specification it follows.
\<close>

text \<open>
  Modelled from the spec: the library's string type \<open>I2PString\<close> is missing. "Each key and
  value is a 1-byte length prefix (0-255) followed by that many bytes of content": an
  \<open>I2PString\<close> is the prefix byte and the content.
\<close>

type_synonym I2PString = "byte list"

text \<open>
  Modelled from the spec: the library's type \<open>Mapping\<close> is missing. It holds the key/value
  records that were read from the wire or built from a map.
\<close>

record Mapping =
  vals :: "(I2PString \<times> I2PString) list"

text \<open>The conversions \<open>[]byte(s)\<close> and \<open>string(b)\<close>.\<close>

definition bytes_of :: "string \<Rightarrow> byte list" where
  "bytes_of s = map of_char s"

definition string_of :: "byte list \<Rightarrow> string" where
  "string_of bs = map (\<lambda>b. char_of (unat b)) bs"

text \<open>
  Modelled from the spec: \<open>I2PString.Data\<close> is missing. It returns the content of a string of
  the shape above, and an error for bytes of another shape.
\<close>

definition I2PString_Data :: "I2PString \<Rightarrow> mapping_error + string" where
  "I2PString_Data str =
     (case str of
        [] \<Rightarrow> Inl InvalidString
      | l # content \<Rightarrow>
          if unat l = length content then Inr (string_of content) else Inl InvalidString)"

text \<open>
  Modelled from the spec: \<open>ToI2PString\<close> is missing. The string of at most 255 bytes behind
  its length prefix ("\<open>len(key):u8, key bytes\<close>").
\<close>

definition ToI2PString :: "string \<Rightarrow> I2PString" where
  "ToI2PString s = word_of_nat (length s) # bytes_of s"

text \<open>
  Modelled from the spec: \<open>Mapping.Values\<close> is missing. The records of the mapping.
\<close>

definition Mapping_Values :: "Mapping \<Rightarrow> (I2PString \<times> I2PString) list" where
  "Mapping_Values m = vals m"

text \<open>
  Modelled from the spec: \<open>Mapping.Data\<close> is missing. The encoding of the specification,
  which is the same on every path: "collect all keys, sort by ascending raw byte value (not
  locale-aware), and for each, in that order, emit \<open>len(key):u8, key bytes, '=',
  len(value):u8, value bytes, ';'\<close>", and "prefix the assembled content with its length as a
  2-byte big-endian size field". The package relies on it: "Keys are sorted for signature
  stability (handled by common/data.Mapping)". \<open>content\<close> is a string without its prefix
  byte; the order of Go strings is the order of their bytes.
\<close>

definition content :: "I2PString \<Rightarrow> string" where
  "content str = string_of (tl str)"

definition record_bytes :: "I2PString \<times> I2PString \<Rightarrow> byte list" where
  "record_bytes kv = fst kv @ [0x3D] @ snd kv @ [0x3B]"

definition size_field :: "nat \<Rightarrow> byte list" where
  "size_field n = [ucast (drop_bit 8 (word_of_nat n :: 16 word)), ucast (word_of_nat n :: 16 word)]"

definition Mapping_Data :: "Mapping \<Rightarrow> byte list" where
  "Mapping_Data m =
     (let sorted_vals = sort_key (\<lambda>kv. content (fst kv)) (vals m);
          body = concat (map record_bytes sorted_vals)
      in size_field (length body) @ body)"

text \<open>
  Modelled from the spec: \<open>GoMapToMapping\<close> is missing. "Collect all keys, sort by ascending
  raw byte value, and for each, in that order, emit" its record; "before emitting, validate
  every key and every value is \<le>255 bytes when encoded; the first violation fails the whole
  operation with \<open>KeyTooLong\<close> or \<open>ValueTooLong\<close>, naming the offending key". The argument is
  the content of the Go map, a list of entries with one entry for a key.
\<close>

fun validate_entries :: "(string \<times> string) list \<Rightarrow> mapping_error option" where
  "validate_entries [] = None"
| "validate_entries (kv # rest) =
     (if length (fst kv) > 255 then Some (KeyTooLong (fst kv))
      else if length (snd kv) > 255 then Some (ValueTooLong (fst kv))
      else validate_entries rest)"

definition GoMapToMapping :: "(string \<times> string) list \<Rightarrow> mapping_error + Mapping" where
  "GoMapToMapping gomap =
     (let keys = sort (map fst gomap);
          entries = map (\<lambda>k. (k, map_get gomap k)) keys
      in case validate_entries entries of
           Some err \<Rightarrow> Inl err
         | None \<Rightarrow> Inr \<lparr>vals = map (\<lambda>kv. (ToI2PString (fst kv), ToI2PString (snd kv))) entries\<rparr>)"

text \<open>
  Modelled from the spec: \<open>ReadMapping\<close> is missing. "Read \<open>size\<close> as unsigned 16-bit
  big-endian"; "require \<open>len(data) \<ge> 2 + size\<close>; else \<open>SizeMismatch\<close>"; "parse the
  \<open>size\<close>-byte region as a sequence of \<open>key=value;\<close> records: each key and value is a 1-byte
  length prefix (0-255) followed by that many bytes of content; a literal \<open>=\<close> byte must
  immediately follow the key content and a literal \<open>;\<close> byte must immediately follow the
  value content. Any deviation (prefix runs past the region boundary, missing \<open>=\<close>, missing
  \<open>;\<close>) fails with \<open>MalformedPair\<close>, naming the offset". The offset is the index in the
  data of the byte at which the deviation shows. The results are the mapping, the bytes
  after the region and the list of errors, empty on success.
\<close>

definition read_string :: "byte list \<Rightarrow> (I2PString \<times> byte list) option" where
  "read_string bs =
     (case bs of
        [] \<Rightarrow> None
      | l # rest \<Rightarrow>
          if unat l \<le> length rest then Some (l # take (unat l) rest, drop (unat l) rest)
          else None)"

definition read_pair ::
  "nat \<Rightarrow> byte list \<Rightarrow> mapping_error + ((I2PString \<times> I2PString) \<times> byte list)" where
  "read_pair off bs =
     (case read_string bs of
        None \<Rightarrow> Inl (MalformedPair off)
      | Some (k, r1) \<Rightarrow>
          (case r1 of
             [] \<Rightarrow> Inl (MalformedPair (off + length k))
           | e # r2 \<Rightarrow>
               if e \<noteq> 0x3D then Inl (MalformedPair (off + length k))
               else
                 (case read_string r2 of
                    None \<Rightarrow> Inl (MalformedPair (off + length k + 1))
                  | Some (v, r3) \<Rightarrow>
                      (case r3 of
                         [] \<Rightarrow> Inl (MalformedPair (off + length k + 1 + length v))
                       | t # r4 \<Rightarrow>
                           if t \<noteq> 0x3B then Inl (MalformedPair (off + length k + 1 + length v))
                           else Inr ((k, v), r4)))))"

lemma read_string_shorter: "read_string bs = Some (s, rest) \<Longrightarrow> length rest < length bs"
  by (auto simp: read_string_def split: list.splits if_splits)

lemma read_pair_shorter: "read_pair off bs = Inr (kv, rest) \<Longrightarrow> length rest < length bs"
  by (fastforce simp: read_pair_def split: option.splits list.splits if_splits prod.splits
      dest: read_string_shorter)

function parse_pairs :: "nat \<Rightarrow> byte list \<Rightarrow> mapping_error + (I2PString \<times> I2PString) list" where
  "parse_pairs off bs =
     (if bs = [] then Inr []
      else
        (case read_pair off bs of
           Inl err \<Rightarrow> Inl err
         | Inr (kv, rest) \<Rightarrow>
             (case parse_pairs (off + (length bs - length rest)) rest of
                Inl err \<Rightarrow> Inl err
              | Inr kvs \<Rightarrow> Inr (kv # kvs))))"
  by pat_completeness auto
termination
  by (relation "measure (\<lambda>(off, bs). length bs)") (auto dest: read_pair_shorter)

declare parse_pairs.simps [simp del]

definition ReadMapping :: "byte list \<Rightarrow> Mapping \<times> byte list \<times> mapping_error list" where
  "ReadMapping bytes =
     (if length bytes < 2 then (\<lparr>vals = []\<rparr>, bytes, [SizeMismatch 2 (length bytes)])
      else
        let size = unat (ucast (bytes ! 1) OR push_bit 8 (ucast (bytes ! 0)) :: 16 word)
        in if length bytes < 2 + size
           then (\<lparr>vals = []\<rparr>, bytes, [SizeMismatch (2 + size) (length bytes)])
           else
             (case parse_pairs 2 (take size (drop 2 bytes)) of
                Inl err \<Rightarrow> (\<lparr>vals = []\<rparr>, drop (2 + size) bytes, [err])
              | Inr kvs \<Rightarrow> (\<lparr>vals = kvs\<rparr>, drop (2 + size) bytes, [])))"

section \<open>Options\<close>

record Options =
  mapping :: "Mapping option"
  "values" :: mapref

definition EmptyOptions :: "heap \<Rightarrow> heap \<times> Options" where
  "EmptyOptions h = (let (h1, a) = make_map h in (h1, \<lparr>mapping = None, values = Some a\<rparr>))"

text \<open>
  The loop of \<open>OptionsFromBytes\<close> over the records of the mapping: a record whose key or
  value gives an error is skipped.
\<close>

fun store_pairs :: "heap \<Rightarrow> nat \<Rightarrow> (I2PString \<times> I2PString) list \<Rightarrow> heap" where
  "store_pairs h a [] = h"
| "store_pairs h a (pair # rest) =
     (case (I2PString_Data (fst pair), I2PString_Data (snd pair)) of
        (Inr keyStr, Inr valStr) \<Rightarrow> store_pairs (map_store h a keyStr valStr) a rest
      | _ \<Rightarrow> store_pairs h a rest)"

definition OptionsFromBytes :: "heap \<Rightarrow> byte list \<Rightarrow> error + (heap \<times> Options \<times> nat)" where
  "OptionsFromBytes h rawData =
     (if length rawData < 2 then Inl (OptionsTooShort 2 (length rawData))
      else
        and_then (index rawData 0) (\<lambda>b0.
        and_then (index rawData 1) (\<lambda>b1.
        let size = push_bit 8 (unat b0) OR unat b1 in
        if size = 0 then
          (let (h1, a) = make_map h in Inr (h1, \<lparr>mapping = None, values = Some a\<rparr>, 2))
        else
          (case ReadMapping rawData of
             (mapping', remainder, errs) \<Rightarrow>
               if length errs > 0 then
                 and_then (index errs 0) (\<lambda>e. Inl (OptionsParseFailed e))
               else
                 let consumed = length rawData - length remainder;
                     (h1, a) = make_map h;
                     h2 = store_pairs h1 a (Mapping_Values mapping')
                 in Inr (h2, \<lparr>mapping = Some mapping', values = Some a\<rparr>, consumed)))))"

text \<open>The methods take the receiver as an option: \<open>None\<close> is the nil pointer.\<close>

definition Options_Bytes :: "heap \<Rightarrow> Options option \<Rightarrow> error + byte list" where
  "Options_Bytes h opts =
     (case opts of
        None \<Rightarrow> Inr [0x00, 0x00]
      | Some s \<Rightarrow>
          if length (deref h (values s)) = 0 then Inr [0x00, 0x00]
          else
            (case mapping s of
               Some m \<Rightarrow> Inr (Mapping_Data m)
             | None \<Rightarrow>
                 (case GoMapToMapping (deref h (values s)) of
                    Inl err \<Rightarrow> Inl (OptionsCreateFailed err)
                  | Inr m \<Rightarrow> Inr (Mapping_Data m))))"

definition Options_Len :: "heap \<Rightarrow> Options option \<Rightarrow> nat" where
  "Options_Len h opts =
     (case opts of
        None \<Rightarrow> 2
      | Some s \<Rightarrow>
          if length (deref h (values s)) = 0 then 2
          else
            (case mapping s of
               Some m \<Rightarrow> length (Mapping_Data m)
             | None \<Rightarrow>
                 (case Options_Bytes h opts of
                    Inl err \<Rightarrow> 2
                  | Inr data \<Rightarrow> length data)))"

definition Options_IsEmpty :: "heap \<Rightarrow> Options option \<Rightarrow> bool" where
  "Options_IsEmpty h opts =
     (case opts of None \<Rightarrow> True | Some s \<Rightarrow> length (deref h (values s)) = 0)"

definition Options_Get :: "heap \<Rightarrow> Options option \<Rightarrow> string \<Rightarrow> string" where
  "Options_Get h opts key =
     (case opts of
        None \<Rightarrow> []
      | Some s \<Rightarrow>
          (case values s of
             None \<Rightarrow> []
           | Some a \<Rightarrow> map_get (cell h a) key))"

text \<open>
  \<open>Set\<close> reads \<open>o.values\<close> first, with no test of the receiver: on the nil pointer that is a
  nil dereference. Otherwise it returns the store and the receiver as it has changed them.
\<close>

definition Options_Set ::
  "heap \<Rightarrow> Options option \<Rightarrow> string \<Rightarrow> string \<Rightarrow> error + (heap \<times> Options)" where
  "Options_Set h opts key value =
     (case opts of
        None \<Rightarrow> Inl Panic
      | Some s \<Rightarrow>
          let (h1, a) = (case values s of None \<Rightarrow> make_map h | Some a \<Rightarrow> (h, a));
              h2 = map_store h1 a key value
          in Inr (h2, s\<lparr>values := Some a, mapping := None\<rparr>))"

definition Options_Has :: "heap \<Rightarrow> Options option \<Rightarrow> string \<Rightarrow> bool" where
  "Options_Has h opts key =
     (case opts of
        None \<Rightarrow> False
      | Some s \<Rightarrow>
          (case values s of
             None \<Rightarrow> False
           | Some a \<Rightarrow> (case map_of (cell h a) key of None \<Rightarrow> False | Some v \<Rightarrow> True)))"

text \<open>The loop \<open>for k, v := range src { dst[k] = v }\<close> into the map at address \<open>a\<close>.\<close>

fun copy_entries :: "heap \<Rightarrow> nat \<Rightarrow> gomap \<Rightarrow> heap" where
  "copy_entries h a [] = h"
| "copy_entries h a (kv # rest) = copy_entries (map_store h a (fst kv) (snd kv)) a rest"

text \<open>\<open>ToMap\<close> returns the store and the reference to the new map.\<close>

definition Options_ToMap :: "heap \<Rightarrow> Options option \<Rightarrow> heap \<times> nat" where
  "Options_ToMap h opts =
     (case opts of
        None \<Rightarrow> make_map h
      | Some s \<Rightarrow>
          (case values s of
             None \<Rightarrow> make_map h
           | Some a \<Rightarrow>
               let (h1, result) = make_map h
               in (copy_entries h1 result (cell h a), result)))"

definition NewOptions :: "heap \<Rightarrow> mapref \<Rightarrow> heap \<times> Options" where
  "NewOptions h m =
     (case m of
        None \<Rightarrow> EmptyOptions h
      | Some a \<Rightarrow>
          let (h1, vs) = make_map h;
              h2 = copy_entries h1 vs (cell h a)
          in (h2, \<lparr>mapping = None, values = Some vs\<rparr>))"

text \<open>
  The record grammar of the wire, to state what the decoder accepts: a string is well formed
  when its prefix byte is the length of its content, and a region of the grammar is the
  \<open>record_bytes\<close> of well-formed pairs, one after the other. An instance is well formed when
  the records of the mapping it holds, if it holds one, are.
\<close>

definition well_formed :: "I2PString \<Rightarrow> bool" where
  "well_formed str = (case str of [] \<Rightarrow> False | l # c \<Rightarrow> unat l = length c)"

definition well_formed_options :: "Options \<Rightarrow> bool" where
  "well_formed_options s =
     (case mapping s of
        None \<Rightarrow> True
      | Some m \<Rightarrow> list_all (\<lambda>kv. well_formed (fst kv) \<and> well_formed (snd kv)) (vals m))"

text \<open>
  The keys of the records of an encoded mapping, in the order of the byte stream: what a
  reader of the bytes finds.
\<close>

definition record_keys :: "byte list \<Rightarrow> string list" where
  "record_keys bs =
     (case parse_pairs 2 (drop 2 bs) of
        Inl err \<Rightarrow> []
      | Inr kvs \<Rightarrow> map (\<lambda>kv. content (fst kv)) kvs)"

text \<open>
  A reference that the program can hold: nil, or the address of a map of the store whose
  content has one entry for a key.
\<close>

definition valid_ref :: "heap \<Rightarrow> mapref \<Rightarrow> bool" where
  "valid_ref h r =
     (case r of None \<Rightarrow> True | Some a \<Rightarrow> a < length h \<and> distinct (map fst (cell h a)))"

text \<open>
  The first two bytes as an unsigned 16-bit big-endian number: the size field of the
  wire.
\<close>

definition wire_size :: "byte list \<Rightarrow> nat" where
  "wire_size bs = unat (bs ! 0) * 256 + unat (bs ! 1)"

section \<open>Properties of the offline signature block\<close>

subsection \<open>Auxiliary facts\<close>

lemma Uint32_bytes:
  "BigEndian_Uint32 [ucast (drop_bit 24 v), ucast (drop_bit 16 v), ucast (drop_bit 8 v), ucast v] = Inr (v :: 32 word)"
  unfolding BigEndian_Uint32_def
  apply simp
  apply (rule bit_word_eqI)
  subgoal for n
    apply (cases "n < 8"; cases "n < 16"; cases "n < 24")
    apply (auto simp: bit_simps)
    done
  done

lemma Uint16_bytes:
  "BigEndian_Uint16 [ucast (drop_bit 8 v), ucast v] = Inr (v :: 16 word)"
  unfolding BigEndian_Uint16_def
  apply simp
  apply (rule bit_word_eqI)
  subgoal for n
    apply (cases "n < 8")
    apply (auto simp: bit_simps)
    done
  done

lemma and_then_Inr [simp]: "and_then (Inr x) f = f x"
  by (simp add: and_then_def)

lemma and_then_Inl [simp]: "and_then (Inl e) f = Inl e"
  by (simp add: and_then_def)

lemma OfflineSignatureFromBytes_cases:
  "OfflineSignatureFromBytes data d =
     (if length data < 6 then Inl (OfflineTooShort 6 (length data))
      else if publicKeyLengthForSigType (wire_sigtype data) = 0
        then Inl (OfflineUnknownSigType RoleTransient (wire_sigtype data))
      else if signatureLengthForSigType d = 0 then Inl (OfflineUnknownSigType RoleDestination d)
      else if length data < 6 + publicKeyLengthForSigType (wire_sigtype data) + signatureLengthForSigType d
        then Inl (OfflineTooShort (6 + publicKeyLengthForSigType (wire_sigtype data) + signatureLengthForSigType d) (length data))
      else Inr (\<lparr>Expires = time_Unix (uint (wire_expires data)) 0,
                  TransientSigType = wire_sigtype data,
                  TransientPublicKey = take (publicKeyLengthForSigType (wire_sigtype data)) (drop 6 data),
                  Signature = take (signatureLengthForSigType d)
                     (drop (publicKeyLengthForSigType (wire_sigtype data)) (drop 6 data))\<rparr>,
                6 + publicKeyLengthForSigType (wire_sigtype data) + signatureLengthForSigType d))"
  unfolding OfflineSignatureFromBytes_def
  by (simp add: slice_def BigEndian_Uint32_def BigEndian_Uint16_def Let_def wire_sigtype_def
      wire_expires_def go_copy_def add.commute)

lemma PutUint32_len4:
  "length b = 4 \<Longrightarrow> BigEndian_PutUint32 v b =
     Inr [ucast (drop_bit 24 v), ucast (drop_bit 16 v), ucast (drop_bit 8 v), ucast v]"
  by (auto simp: BigEndian_PutUint32_def eval_nat_numeral length_Suc_conv)

lemma PutUint16_len2:
  "length b = 2 \<Longrightarrow> BigEndian_PutUint16 v b = Inr [ucast (drop_bit 8 v), ucast v]"
  by (auto simp: BigEndian_PutUint16_def eval_nat_numeral length_Suc_conv)

lemma with_slice_mid:
  "f mid = Inr mid' \<Longrightarrow> lo = length pre \<Longrightarrow> hi = length pre + length mid \<Longrightarrow>
   with_slice (pre @ mid @ post) lo hi f = Inr (pre @ mid' @ post)"
  by (simp add: with_slice_def slice_def)

lemma with_slice_tail:
  "off = length pre \<Longrightarrow> n = length pre + length rest \<Longrightarrow>
   with_slice (pre @ rest) off n (\<lambda>sub. Inr (go_copy sub src)) = Inr (pre @ go_copy rest src)"
  by (simp add: with_slice_def slice_def)

lemma go_copy_replicate:
  "go_copy (replicate (length src + n) z) src = src @ replicate n z"
  by (simp add: go_copy_def min_def)

lemma OfflineSignature_Bytes_eq:
  "OfflineSignature_Bytes v =
     Inr ([ucast (drop_bit 24 (word_of_int (Unix (Expires v)) :: 32 word)),
           ucast (drop_bit 16 (word_of_int (Unix (Expires v)) :: 32 word)),
           ucast (drop_bit 8 (word_of_int (Unix (Expires v)) :: 32 word)),
           ucast (word_of_int (Unix (Expires v)) :: 32 word),
           ucast (drop_bit 8 (TransientSigType v)), ucast (TransientSigType v)]
          @ TransientPublicKey v @ Signature v)"
proof -
  define k where "k = length (TransientPublicKey v)"
  define s where "s = length (Signature v)"
  define w :: "32 word" where "w = word_of_int (Unix (Expires v))"
  define B4 :: "byte list" where
    "B4 = [ucast (drop_bit 24 w), ucast (drop_bit 16 w), ucast (drop_bit 8 w), ucast w]"
  define B2 :: "byte list" where
    "B2 = [ucast (drop_bit 8 (TransientSigType v)), ucast (TransientSigType v)]"
  have r0: "replicate (6 + k + s) (0::byte) = [] @ replicate 4 0 @ replicate (2 + k + s) 0"
    by (simp only: append_Nil replicate_add [symmetric]) simp
  have s1: "with_slice (replicate (6 + k + s) 0) 0 4 (BigEndian_PutUint32 w)
              = Inr (B4 @ replicate (2 + k + s) 0)"
    unfolding r0 by (subst with_slice_mid [where mid' = B4]) (simp_all add: PutUint32_len4 B4_def)
  have r1: "replicate (2 + k + s) (0::byte) = replicate 2 0 @ replicate (k + s) 0"
    by (simp only: replicate_add [symmetric] add.assoc)
  have s2: "with_slice (B4 @ replicate (2 + k + s) 0) 4 6 (BigEndian_PutUint16 (TransientSigType v))
              = Inr (B4 @ B2 @ replicate (k + s) 0)"
    unfolding r1 by (subst with_slice_mid [where mid' = B2]) (simp_all add: PutUint16_len2 B2_def B4_def)
  have s3: "with_slice ((B4 @ B2) @ replicate (k + s) 0) 6 (length ((B4 @ B2) @ replicate (k + s) (0::byte)))
              (\<lambda>sub. Inr (go_copy sub (TransientPublicKey v)))
              = Inr ((B4 @ B2) @ TransientPublicKey v @ replicate s 0)"
    by (subst with_slice_tail) (simp_all add: B4_def B2_def k_def go_copy_replicate)
  have s4: "with_slice ((B4 @ B2 @ TransientPublicKey v) @ replicate s 0) (6 + k)
              (length ((B4 @ B2 @ TransientPublicKey v) @ replicate s (0::byte)))
              (\<lambda>sub. Inr (go_copy sub (Signature v)))
              = Inr ((B4 @ B2 @ TransientPublicKey v) @ Signature v)"
    by (subst with_slice_tail)
       (simp_all add: B4_def B2_def k_def s_def go_copy_replicate [where n = 0, simplified])
  have "OfflineSignature_Bytes v = Inr (B4 @ B2 @ TransientPublicKey v @ Signature v)"
    unfolding OfflineSignature_Bytes_def Let_def
    using s1 s2 s3 s4 by (simp add: k_def s_def w_def)
  then show ?thesis
    by (simp add: B4_def B2_def w_def)
qed


lemma wire_sigtype_enc:
  "wire_sigtype (a # b # c # d # ucast (drop_bit 8 t) # ucast t # rest) = t"
  using Uint16_bytes [of t] by (simp add: wire_sigtype_def BigEndian_Uint16_def)

lemma wire_expires_enc:
  "wire_expires (ucast (drop_bit 24 w) # ucast (drop_bit 16 w) # ucast (drop_bit 8 w) # ucast w # rest) = w"
  using Uint32_bytes [of w] by (simp add: wire_expires_def BigEndian_Uint32_def)

lemma decode_encode:
  assumes "publicKeyLengthForSigType (TransientSigType v) \<noteq> 0"
    and "length (TransientPublicKey v) = publicKeyLengthForSigType (TransientSigType v)"
    and "signatureLengthForSigType d \<noteq> 0"
    and "length (Signature v) = signatureLengthForSigType d"
  shows "\<exists>bs. OfflineSignature_Bytes v = Inr bs \<and>
          length bs = 6 + length (TransientPublicKey v) + length (Signature v) \<and>
          OfflineSignatureFromBytes bs d =
            Inr (v\<lparr>Expires := time_Unix (Unix (Expires v) mod 2 ^ 32) 0\<rparr>, length bs)"
  using assms
  by (simp add: OfflineSignature_Bytes_eq OfflineSignatureFromBytes_cases wire_sigtype_enc
      wire_expires_enc uint_word_of_int)

lemma time_eq_iff:
  "(time_Unix (Unix t mod 2 ^ 32) 0 = t) = (0 \<le> Unix t \<and> Unix t < 2 ^ 32 \<and> nsec t = 0)"
  by (cases t) (auto simp: time_Unix_def Unix_def)

lemma wire_sigtype_Cons:
  "wire_sigtype (a # b # c # d # e # f # rest) = ucast f OR push_bit 8 (ucast e)"
  by (simp add: wire_sigtype_def)

lemma wire_expires_Cons:
  "wire_expires (a # b # c # d # rest) =
     ucast d OR push_bit 8 (ucast c) OR push_bit 16 (ucast b) OR push_bit 24 (ucast a)"
  by (simp add: wire_expires_def)

subsection \<open>Decoding: the case analysis\<close>

text \<open>
  Claim C3. On every input \<open>(data, destSigType)\<close> the decoder does exactly this: fewer than
  6 bytes fail as too short (need 6); otherwise a transient signature type with public key
  length 0, and then a destination signature type with signature length 0, fail as an unknown
  signature type, naming the role and the code; otherwise fewer than
  \<open>total = 6 + pubKeyLen + sigLen\<close> bytes fail as too short, reporting \<open>total\<close> and the length
  given; otherwise it returns a value and \<open>total\<close> as the bytes consumed. No input makes it
  fault: every slice it takes lies inside \<open>data\<close>.
\<close>

theorem OfflineSignatureFromBytes_case_analysis:
  "let pk = publicKeyLengthForSigType (wire_sigtype data);
       sl = signatureLengthForSigType destSigType;
       total = 6 + pk + sl;
       r = OfflineSignatureFromBytes data destSigType
   in (length data < 6 \<longrightarrow> r = Inl (OfflineTooShort 6 (length data))) \<and>
      (6 \<le> length data \<and> pk = 0 \<longrightarrow>
         r = Inl (OfflineUnknownSigType RoleTransient (wire_sigtype data))) \<and>
      (6 \<le> length data \<and> pk \<noteq> 0 \<and> sl = 0 \<longrightarrow>
         r = Inl (OfflineUnknownSigType RoleDestination destSigType)) \<and>
      (6 \<le> length data \<and> pk \<noteq> 0 \<and> sl \<noteq> 0 \<and> length data < total \<longrightarrow>
         r = Inl (OfflineTooShort total (length data))) \<and>
      (6 \<le> length data \<and> pk \<noteq> 0 \<and> sl \<noteq> 0 \<and> total \<le> length data \<longrightarrow>
         (\<exists>v. r = Inr (v, total))) \<and>
      r \<noteq> Inl Panic"
  by (simp add: OfflineSignatureFromBytes_cases Let_def)

theorem OfflineSignatureFromBytes_case_analysis_witness:
  "OfflineSignatureFromBytes [] 7 = Inl (OfflineTooShort 6 0) \<and>
   OfflineSignatureFromBytes [0, 0, 0, 1, 0, 255] 7 = Inl (OfflineUnknownSigType RoleTransient 255) \<and>
   OfflineSignatureFromBytes [0, 0, 0, 1, 0, 7] 255 = Inl (OfflineUnknownSigType RoleDestination 255) \<and>
   OfflineSignatureFromBytes [0, 0, 0, 1, 0, 7] 7 = Inl (OfflineTooShort 102 6) \<and>
   (\<exists>v. OfflineSignatureFromBytes ([0, 0, 0, 1, 0, 7] @ replicate 96 0) 7 = Inr (v, 102))"
proof -
  have a: "OfflineSignatureFromBytes [] 7 = Inl (OfflineTooShort 6 0)"
    using OfflineSignatureFromBytes_case_analysis [of "[]" 7] by (simp add: Let_def)
  have b: "OfflineSignatureFromBytes [0, 0, 0, 1, 0, 255] 7 = Inl (OfflineUnknownSigType RoleTransient 255)"
    using OfflineSignatureFromBytes_case_analysis [of "[0, 0, 0, 1, 0, 255]" 7]
    by (simp add: Let_def wire_sigtype_Cons publicKeyLengthForSigType_def)
  have c: "OfflineSignatureFromBytes [0, 0, 0, 1, 0, 7] 255 = Inl (OfflineUnknownSigType RoleDestination 255)"
    using OfflineSignatureFromBytes_case_analysis [of "[0, 0, 0, 1, 0, 7]" 255]
    by (simp add: Let_def wire_sigtype_Cons publicKeyLengthForSigType_def signatureLengthForSigType_def)
  have d: "OfflineSignatureFromBytes [0, 0, 0, 1, 0, 7] 7 = Inl (OfflineTooShort 102 6)"
    using OfflineSignatureFromBytes_case_analysis [of "[0, 0, 0, 1, 0, 7]" 7]
    by (simp add: Let_def wire_sigtype_Cons publicKeyLengthForSigType_def signatureLengthForSigType_def)
  have e: "\<exists>v. OfflineSignatureFromBytes ([0, 0, 0, 1, 0, 7] @ replicate 96 0) 7 = Inr (v, 102)"
    using OfflineSignatureFromBytes_case_analysis [of "[0, 0, 0, 1, 0, 7] @ replicate 96 0" 7]
    by (simp add: Let_def wire_sigtype_Cons publicKeyLengthForSigType_def signatureLengthForSigType_def)
  from a b c d e show ?thesis by blast
qed

subsection \<open>Encoding, then decoding\<close>

text \<open>
  The round trip as Claim C4 states it fails on two values whose field lengths are as the
  claim asks: one that expires \<open>2 ^ 32\<close> seconds after the epoch comes back with expiry 0,
  and one with the unknown transient type 255 and an empty key does not decode at all.
\<close>

theorem offline_roundtrip_counterexample:
  "length (TransientPublicKey \<lparr>Expires = \<lparr>unix_sec = 4294967296, nsec = 0\<rparr>,
        TransientSigType = 7, TransientPublicKey = replicate 32 0, Signature = replicate 64 0\<rparr>)
     = publicKeyLengthForSigType 7 \<and>
   length (Signature \<lparr>Expires = \<lparr>unix_sec = 4294967296, nsec = 0\<rparr>,
        TransientSigType = 7, TransientPublicKey = replicate 32 0, Signature = replicate 64 0\<rparr>)
     = signatureLengthForSigType 7 \<and>
   OfflineSignature_Bytes \<lparr>Expires = \<lparr>unix_sec = 4294967296, nsec = 0\<rparr>,
        TransientSigType = 7, TransientPublicKey = replicate 32 0, Signature = replicate 64 0\<rparr>
     = Inr ([0, 0, 0, 0, 0, 7] @ replicate 32 0 @ replicate 64 0) \<and>
   OfflineSignatureFromBytes ([0, 0, 0, 0, 0, 7] @ replicate 32 0 @ replicate 64 0) 7
     = Inr (\<lparr>Expires = \<lparr>unix_sec = 0, nsec = 0\<rparr>, TransientSigType = 7,
        TransientPublicKey = replicate 32 0, Signature = replicate 64 0\<rparr>, 102) \<and>
   OfflineSignatureFromBytes ([0, 0, 0, 0, 0, 7] @ replicate 32 0 @ replicate 64 0) 7
     \<noteq> Inr (\<lparr>Expires = \<lparr>unix_sec = 4294967296, nsec = 0\<rparr>, TransientSigType = 7,
        TransientPublicKey = replicate 32 0, Signature = replicate 64 0\<rparr>, 102) \<and>
   length (TransientPublicKey \<lparr>Expires = \<lparr>unix_sec = 1, nsec = 0\<rparr>, TransientSigType = 255,
        TransientPublicKey = [], Signature = replicate 64 0\<rparr>)
     = publicKeyLengthForSigType 255 \<and>
   length (Signature \<lparr>Expires = \<lparr>unix_sec = 1, nsec = 0\<rparr>, TransientSigType = 255,
        TransientPublicKey = [], Signature = replicate 64 0\<rparr>)
     = signatureLengthForSigType 7 \<and>
   OfflineSignature_Bytes \<lparr>Expires = \<lparr>unix_sec = 1, nsec = 0\<rparr>, TransientSigType = 255,
        TransientPublicKey = [], Signature = replicate 64 0\<rparr>
     = Inr ([0, 0, 0, 1, 0, 255] @ replicate 64 0) \<and>
   OfflineSignatureFromBytes ([0, 0, 0, 1, 0, 255] @ replicate 64 0) 7
     = Inl (OfflineUnknownSigType RoleTransient 255)"
  by (simp add: OfflineSignature_Bytes_eq OfflineSignatureFromBytes_cases wire_sigtype_Cons
      wire_expires_Cons publicKeyLengthForSigType_def signatureLengthForSigType_def
      Unix_def time_Unix_def)

text \<open>
  Claim C4, amended. Let \<open>v\<close> have a transient signature type of the table, a transient
  public key of that type's key length, a signature of the length of a destination
  signature type of the table, and an expiry of whole seconds in \<open>[0, 2 ^ 32)\<close>. Then
  encoding \<open>v\<close> and decoding the bytes with that destination type returns \<open>v\<close> itself and
  the length of the encoding.
\<close>

theorem offline_roundtrip:
  assumes "publicKeyLengthForSigType (TransientSigType v) \<noteq> 0"
    and "length (TransientPublicKey v) = publicKeyLengthForSigType (TransientSigType v)"
    and "signatureLengthForSigType destSigType \<noteq> 0"
    and "length (Signature v) = signatureLengthForSigType destSigType"
    and "0 \<le> Unix (Expires v)" and "Unix (Expires v) < 2 ^ 32" and "nsec (Expires v) = 0"
  shows "\<exists>bs. OfflineSignature_Bytes v = Inr bs \<and>
           OfflineSignatureFromBytes bs destSigType = Inr (v, length bs)"
proof -
  from decode_encode [OF assms(1-4)] obtain bs where
    bs: "OfflineSignature_Bytes v = Inr bs"
      "OfflineSignatureFromBytes bs destSigType =
         Inr (v\<lparr>Expires := time_Unix (Unix (Expires v) mod 2 ^ 32) 0\<rparr>, length bs)"
    by blast
  have "time_Unix (Unix (Expires v) mod 2 ^ 32) 0 = Expires v"
    using assms(5-7) time_eq_iff [of "Expires v"] by blast
  with bs show ?thesis by simp
qed

theorem offline_roundtrip_witness:
  "\<exists>bs. OfflineSignature_Bytes \<lparr>Expires = \<lparr>unix_sec = 1700000000, nsec = 0\<rparr>, TransientSigType = 7,
        TransientPublicKey = replicate 32 1, Signature = replicate 64 2\<rparr> = Inr bs \<and>
     OfflineSignatureFromBytes bs 7 =
       Inr (\<lparr>Expires = \<lparr>unix_sec = 1700000000, nsec = 0\<rparr>, TransientSigType = 7,
        TransientPublicKey = replicate 32 1, Signature = replicate 64 2\<rparr>, length bs)"
  by (rule offline_roundtrip)
     (simp_all add: publicKeyLengthForSigType_def signatureLengthForSigType_def Unix_def)

text \<open>
  Claim C8. The encoder writes the low 32 bits of \<open>Expires.Unix()\<close>, big endian, so the
  wire holds the seconds modulo \<open>2 ^ 32\<close>. The decoded expiry has those seconds and no
  sub-second part: it is the original exactly when the original has whole seconds in
  \<open>[0, 2 ^ 32)\<close>, and its seconds differ from the original's by a multiple of \<open>2 ^ 32\<close>.
\<close>

theorem offline_expires_mod:
  "(\<exists>bs. OfflineSignature_Bytes v = Inr bs \<and>
      wire_expires bs = word_of_int (Unix (Expires v)) \<and>
      uint (wire_expires bs) = Unix (Expires v) mod 2 ^ 32) \<and>
   (publicKeyLengthForSigType (TransientSigType v) \<noteq> 0 \<and>
    length (TransientPublicKey v) = publicKeyLengthForSigType (TransientSigType v) \<and>
    signatureLengthForSigType destSigType \<noteq> 0 \<and>
    length (Signature v) = signatureLengthForSigType destSigType \<longrightarrow>
      (\<exists>bs v'. OfflineSignature_Bytes v = Inr bs \<and>
         OfflineSignatureFromBytes bs destSigType = Inr (v', length bs) \<and>
         TransientSigType v' = TransientSigType v \<and>
         TransientPublicKey v' = TransientPublicKey v \<and>
         Signature v' = Signature v \<and>
         Unix (Expires v') = Unix (Expires v) mod 2 ^ 32 \<and>
         nsec (Expires v') = 0 \<and>
         (Expires v' = Expires v \<longleftrightarrow>
            0 \<le> Unix (Expires v) \<and> Unix (Expires v) < 2 ^ 32 \<and> nsec (Expires v) = 0) \<and>
         (\<exists>k. Unix (Expires v) - Unix (Expires v') = k * 2 ^ 32)))"
proof (rule conjI)
  show "\<exists>bs. OfflineSignature_Bytes v = Inr bs \<and>
      wire_expires bs = word_of_int (Unix (Expires v)) \<and>
      uint (wire_expires bs) = Unix (Expires v) mod 2 ^ 32"
    by (simp add: OfflineSignature_Bytes_eq wire_expires_enc uint_word_of_int)
next
  show "publicKeyLengthForSigType (TransientSigType v) \<noteq> 0 \<and>
    length (TransientPublicKey v) = publicKeyLengthForSigType (TransientSigType v) \<and>
    signatureLengthForSigType destSigType \<noteq> 0 \<and>
    length (Signature v) = signatureLengthForSigType destSigType \<longrightarrow>
      (\<exists>bs v'. OfflineSignature_Bytes v = Inr bs \<and>
         OfflineSignatureFromBytes bs destSigType = Inr (v', length bs) \<and>
         TransientSigType v' = TransientSigType v \<and>
         TransientPublicKey v' = TransientPublicKey v \<and>
         Signature v' = Signature v \<and>
         Unix (Expires v') = Unix (Expires v) mod 2 ^ 32 \<and>
         nsec (Expires v') = 0 \<and>
         (Expires v' = Expires v \<longleftrightarrow>
            0 \<le> Unix (Expires v) \<and> Unix (Expires v) < 2 ^ 32 \<and> nsec (Expires v) = 0) \<and>
         (\<exists>k. Unix (Expires v) - Unix (Expires v') = k * 2 ^ 32))"
  proof
    assume a: "publicKeyLengthForSigType (TransientSigType v) \<noteq> 0 \<and>
      length (TransientPublicKey v) = publicKeyLengthForSigType (TransientSigType v) \<and>
      signatureLengthForSigType destSigType \<noteq> 0 \<and>
      length (Signature v) = signatureLengthForSigType destSigType"
    define v' where "v' = v\<lparr>Expires := time_Unix (Unix (Expires v) mod 2 ^ 32) 0\<rparr>"
    from a decode_encode [of v destSigType] obtain bs where
      bs: "OfflineSignature_Bytes v = Inr bs"
        "OfflineSignatureFromBytes bs destSigType = Inr (v', length bs)"
      unfolding v'_def by blast
    have f: "TransientSigType v' = TransientSigType v"
      "TransientPublicKey v' = TransientPublicKey v" "Signature v' = Signature v"
      by (simp_all add: v'_def)
    have u: "Unix (Expires v') = Unix (Expires v) mod 2 ^ 32" "nsec (Expires v') = 0"
      by (simp_all add: v'_def time_Unix_def Unix_def)
    have e: "Expires v' = Expires v \<longleftrightarrow>
        0 \<le> Unix (Expires v) \<and> Unix (Expires v) < 2 ^ 32 \<and> nsec (Expires v) = 0"
      using time_eq_iff [of "Expires v"] by (simp add: v'_def)
    have k: "\<exists>k. Unix (Expires v) - Unix (Expires v') = k * 2 ^ 32"
      unfolding u(1) by (metis minus_mod_eq_mult_div mult.commute)
    from bs f u e k show "\<exists>bs v'. OfflineSignature_Bytes v = Inr bs \<and>
         OfflineSignatureFromBytes bs destSigType = Inr (v', length bs) \<and>
         TransientSigType v' = TransientSigType v \<and>
         TransientPublicKey v' = TransientPublicKey v \<and>
         Signature v' = Signature v \<and>
         Unix (Expires v') = Unix (Expires v) mod 2 ^ 32 \<and>
         nsec (Expires v') = 0 \<and>
         (Expires v' = Expires v \<longleftrightarrow>
            0 \<le> Unix (Expires v) \<and> Unix (Expires v) < 2 ^ 32 \<and> nsec (Expires v) = 0) \<and>
         (\<exists>k. Unix (Expires v) - Unix (Expires v') = k * 2 ^ 32)"
      by blast
  qed
qed

theorem offline_expires_mod_witness:
  "\<exists>bs v'. OfflineSignature_Bytes \<lparr>Expires = \<lparr>unix_sec = 4294967301, nsec = 7\<rparr>,
        TransientSigType = 7, TransientPublicKey = replicate 32 1, Signature = replicate 64 2\<rparr>
        = Inr bs \<and>
     OfflineSignatureFromBytes bs 7 = Inr (v', length bs) \<and>
     Unix (Expires v') = 5 \<and> nsec (Expires v') = 0 \<and>
     Expires v' \<noteq> \<lparr>unix_sec = 4294967301, nsec = 7\<rparr>"
proof -
  from offline_expires_mod [of "\<lparr>Expires = \<lparr>unix_sec = 4294967301, nsec = 7\<rparr>,
        TransientSigType = 7, TransientPublicKey = replicate 32 1, Signature = replicate 64 2\<rparr>" 7]
  obtain bs v' where
    "OfflineSignature_Bytes \<lparr>Expires = \<lparr>unix_sec = 4294967301, nsec = 7\<rparr>,
        TransientSigType = 7, TransientPublicKey = replicate 32 1, Signature = replicate 64 2\<rparr>
        = Inr bs"
    "OfflineSignatureFromBytes bs 7 = Inr (v', length bs)"
    "Unix (Expires v') = 5" "nsec (Expires v') = 0"
    "Expires v' \<noteq> \<lparr>unix_sec = 4294967301, nsec = 7\<rparr>"
    by (auto simp: publicKeyLengthForSigType_def signatureLengthForSigType_def Unix_def)
  then show ?thesis by blast
qed

section \<open>Properties of the address parser\<close>

subsection \<open>Auxiliary facts\<close>

lemma digit_value_digit: "is_digit c \<Longrightarrow> digit_value c = Some (of_char c - 48)"
  by (simp add: is_digit_def digit_value_def less_eq_char_def Let_def)

lemma digit_value_nondigit:
  "\<not> is_digit c \<Longrightarrow> digit_value c = None \<or> (\<exists>d. digit_value c = Some d \<and> d \<ge> 10)"
  by (auto simp add: is_digit_def digit_value_def less_eq_char_def Let_def)

lemma digit_lt10: "is_digit c \<Longrightarrow> (of_char c :: nat) - 48 < 10"
  by (auto simp add: is_digit_def less_eq_char_def)

lemma ParseUint_10_16:
  "ParseUint s 10 16 =
     (if s = [] then Inl ErrSyntax else parse_loop 10 1844674407370955162 65535 0 s)"
  by (simp add: ParseUint_def)

lemma foldl_digits_ge: "n \<le> foldl (\<lambda>n c. n * 10 + (of_char c - 48)) (n::nat) p"
proof (induction p arbitrary: n)
  case Nil
  show ?case by simp
next
  case (Cons c cs)
  have "n \<le> n * 10 + (of_char c - 48)" by simp
  also have "\<dots> \<le> foldl (\<lambda>n c. n * 10 + (of_char c - 48)) (n * 10 + (of_char c - 48)) cs"
    by (rule Cons.IH)
  finally show ?case by simp
qed

lemma parse_loop_digits:
  "\<forall>c\<in>set p. is_digit c \<Longrightarrow> n \<le> 65535 \<Longrightarrow>
   parse_loop 10 1844674407370955162 65535 n p =
     (if foldl (\<lambda>n c. n * 10 + (of_char c - 48)) n p \<le> 65535
      then Inr (foldl (\<lambda>n c. n * 10 + (of_char c - 48)) n p) else Inl ErrRange)"
proof (induction p arbitrary: n)
  case Nil
  then show ?case by simp
next
  case (Cons c cs)
  let ?n1 = "n * 10 + (of_char c - 48)"
  from Cons.prems have dc: "is_digit c" and dcs: "\<forall>c\<in>set cs. is_digit c" by simp_all
  show ?case
  proof (cases "?n1 \<le> 65535")
    case True
    with Cons.IH [OF dcs True] dc digit_lt10 [OF dc] Cons.prems(2) show ?thesis
      by (simp add: digit_value_digit)
  next
    case False
    moreover have "?n1 \<le> foldl (\<lambda>n c. n * 10 + (of_char c - 48)) ?n1 cs"
      by (rule foldl_digits_ge)
    ultimately show ?thesis
      using dc digit_lt10 [OF dc] Cons.prems(2) by (simp add: digit_value_digit)
  qed
qed

lemma parse_loop_nondigit:
  "\<exists>c\<in>set p. \<not> is_digit c \<Longrightarrow> \<exists>e. parse_loop 10 cutoff maxVal n p = Inl e"
proof (induction p arbitrary: n)
  case Nil
  then show ?case by simp
next
  case (Cons c cs)
  show ?case
  proof (cases "is_digit c")
    case True
    with Cons.prems have "\<exists>c\<in>set cs. \<not> is_digit c" by simp
    from Cons.IH [OF this] show ?thesis
      by (auto simp: Let_def split: option.splits)
  next
    case False
    from digit_value_nondigit [OF this] show ?thesis by auto
  qed
qed

lemma ParseUint_ok:
  "p \<noteq> [] \<Longrightarrow> \<forall>c\<in>set p. is_digit c \<Longrightarrow> decimal_value p \<le> 65535 \<Longrightarrow>
   ParseUint p 10 16 = Inr (decimal_value p)"
  using parse_loop_digits [of p 0] by (simp add: ParseUint_10_16 decimal_value_def)

lemma ParseUint_err:
  "\<not> (p \<noteq> [] \<and> (\<forall>c\<in>set p. is_digit c) \<and> decimal_value p \<le> 65535) \<Longrightarrow>
   \<exists>e. ParseUint p 10 16 = Inl e"
proof (cases "p \<noteq> [] \<and> (\<forall>c\<in>set p. is_digit c)")
  case True
  moreover assume "\<not> (p \<noteq> [] \<and> (\<forall>c\<in>set p. is_digit c) \<and> decimal_value p \<le> 65535)"
  ultimately show ?thesis
    using parse_loop_digits [of p 0] by (auto simp: ParseUint_10_16 decimal_value_def)
next
  case False
  then show ?thesis
    using parse_loop_nondigit [of p 1844674407370955162 65535 0]
    by (auto simp: ParseUint_10_16)
qed

lemma split_from_nonempty: "split_from cur sep s \<noteq> []"
  by (induction s arbitrary: cur) auto

lemma split_from_no_sep: "sep \<notin> set s \<Longrightarrow> split_from cur sep s = [cur @ s]"
  by (induction s arbitrary: cur) auto

lemma split_from_append:
  "split_from cur sep (d @ sep # p) = split_from cur sep d @ split_from [] sep p"
  by (induction d arbitrary: cur) auto

lemma Join_Cons: "ps \<noteq> [] \<Longrightarrow> Join (p # ps) sep = p @ sep @ Join ps sep"
  by (cases ps) auto

lemma Join_split_from: "Join (split_from cur sep d) [sep] = cur @ d"
  by (induction d arbitrary: cur) (auto simp: Join_Cons split_from_nonempty)

lemma ParseI2PAddr_no_colon:
  "addr \<noteq> [] \<Longrightarrow> CHR '':'' \<notin> set addr \<Longrightarrow>
   ParseI2PAddr addr = Inr \<lparr>Destination = addr, Port = 0\<rparr>"
  by (simp add: ParseI2PAddr_def Split_def split_from_no_sep index_def)

lemma ParseI2PAddr_colon:
  assumes "CHR '':'' \<notin> set p"
  shows "ParseI2PAddr (d @ CHR '':'' # p) =
     (case ParseUint p 10 16 of Inl err \<Rightarrow> Inl (InvalidPort p err)
      | Inr port \<Rightarrow> Inr \<lparr>Destination = d, Port = word_of_nat port\<rparr>)"
proof -
  have parts: "Split (d @ CHR '':'' # p) (CHR '':'') = split_from [] (CHR '':'') d @ [p]"
    using assms by (simp add: Split_def split_from_append split_from_no_sep)
  have ne: "split_from [] (CHR '':'') d \<noteq> []" by (rule split_from_nonempty)
  then have len: "length (split_from [] (CHR '':'') d @ [p]) \<noteq> 1" by simp
  show ?thesis
    unfolding ParseI2PAddr_def parts Let_def
    using len Join_split_from [of "[]" "CHR '':''" d]
    by (simp add: index_def slice_def split: sum.splits)
qed

subsection \<open>Parsing an address\<close>

text \<open>
  Claim C7. On a non-empty string without a colon the parser returns the string as the
  destination, with port 0. A string with a colon is \<open>d\<close>, a colon and a last segment \<open>p\<close>
  without a colon: when \<open>p\<close> is a non-empty string of decimal digits whose value is at most
  65535, the parser returns destination \<open>d\<close> (the segments before, joined with colons again)
  and that value as the port; otherwise (a sign, any other byte that is no digit, a value from
  65536 on) it fails with the invalid port error that names \<open>p\<close>.
\<close>

theorem ParseI2PAddr_spec:
  "(addr \<noteq> [] \<and> CHR '':'' \<notin> set addr \<longrightarrow>
      ParseI2PAddr addr = Inr \<lparr>Destination = addr, Port = 0\<rparr>) \<and>
   (CHR '':'' \<in> set addr \<longrightarrow> (\<exists>d p. addr = d @ CHR '':'' # p \<and> CHR '':'' \<notin> set p)) \<and>
   (CHR '':'' \<notin> set p \<and> p \<noteq> [] \<and> (\<forall>c\<in>set p. is_digit c) \<and> decimal_value p \<le> 65535 \<longrightarrow>
      ParseI2PAddr (d @ CHR '':'' # p) =
        Inr \<lparr>Destination = d, Port = word_of_nat (decimal_value p)\<rparr> \<and>
      unat (word_of_nat (decimal_value p) :: 16 word) = decimal_value p) \<and>
   (CHR '':'' \<notin> set p \<and> \<not> (p \<noteq> [] \<and> (\<forall>c\<in>set p. is_digit c) \<and> decimal_value p \<le> 65535) \<longrightarrow>
      (\<exists>e. ParseI2PAddr (d @ CHR '':'' # p) = Inl (InvalidPort p e)))"
proof (intro conjI impI)
  assume "addr \<noteq> [] \<and> CHR '':'' \<notin> set addr"
  then show "ParseI2PAddr addr = Inr \<lparr>Destination = addr, Port = 0\<rparr>"
    by (simp add: ParseI2PAddr_no_colon)
next
  assume "CHR '':'' \<in> set addr"
  then show "\<exists>d p. addr = d @ CHR '':'' # p \<and> CHR '':'' \<notin> set p"
    by (rule split_list_last)
next
  assume a: "CHR '':'' \<notin> set p \<and> p \<noteq> [] \<and> (\<forall>c\<in>set p. is_digit c) \<and> decimal_value p \<le> 65535"
  then have "ParseUint p 10 16 = Inr (decimal_value p)"
    by (simp add: ParseUint_ok)
  with a show "ParseI2PAddr (d @ CHR '':'' # p) =
        Inr \<lparr>Destination = d, Port = word_of_nat (decimal_value p)\<rparr>"
    by (simp add: ParseI2PAddr_colon)
  from a show "unat (word_of_nat (decimal_value p) :: 16 word) = decimal_value p"
    by (simp add: unat_of_nat)
next
  assume a: "CHR '':'' \<notin> set p \<and> \<not> (p \<noteq> [] \<and> (\<forall>c\<in>set p. is_digit c) \<and> decimal_value p \<le> 65535)"
  then obtain e where "ParseUint p 10 16 = Inl e"
    using ParseUint_err [of p] by blast
  with a show "\<exists>e. ParseI2PAddr (d @ CHR '':'' # p) = Inl (InvalidPort p e)"
    by (simp add: ParseI2PAddr_colon)
qed

theorem ParseI2PAddr_spec_witness:
  "ParseI2PAddr ''example.i2p'' = Inr \<lparr>Destination = ''example.i2p'', Port = 0\<rparr> \<and>
   ParseI2PAddr ''a:b:12345'' = Inr \<lparr>Destination = ''a:b'', Port = 12345\<rparr> \<and>
   (\<exists>e. ParseI2PAddr ''x:99999'' = Inl (InvalidPort ''99999'' e)) \<and>
   (\<exists>e. ParseI2PAddr ''x:-1'' = Inl (InvalidPort ''-1'' e))"
proof -
  have a: "ParseI2PAddr ''example.i2p'' = Inr \<lparr>Destination = ''example.i2p'', Port = 0\<rparr>"
    using ParseI2PAddr_spec [of "''example.i2p''" "[]" "[]"] by simp
  have b: "ParseI2PAddr ''a:b:12345'' = Inr \<lparr>Destination = ''a:b'', Port = 12345\<rparr>"
    using ParseI2PAddr_spec [of "[]" "''12345''" "''a:b''"]
    by (simp add: is_digit_def less_eq_char_def decimal_value_def)
  have c: "\<exists>e. ParseI2PAddr ''x:99999'' = Inl (InvalidPort ''99999'' e)"
    using ParseI2PAddr_spec [of "[]" "''99999''" "''x''"]
    by (simp add: is_digit_def less_eq_char_def decimal_value_def)
  have d: "\<exists>e. ParseI2PAddr ''x:-1'' = Inl (InvalidPort ''-1'' e)"
    using ParseI2PAddr_spec [of "[]" "''-1''" "''x''"]
    by (simp add: is_digit_def less_eq_char_def decimal_value_def)
  from a b c d show ?thesis by blast
qed

text \<open>
  Claim C10. A string that ends with a colon fails with the invalid port error naming the
  empty segment. Port 0 by default is for strings without a colon only: when a string
  with a colon parses, its last segment is a non-empty string of digits and the port is its
  value.
\<close>

theorem ParseI2PAddr_trailing_colon:
  "ParseI2PAddr (d @ '':'') = Inl (InvalidPort [] ErrSyntax) \<and>
   (CHR '':'' \<in> set addr \<and> ParseI2PAddr addr = Inr a \<longrightarrow>
      (\<exists>d p. addr = d @ CHR '':'' # p \<and> p \<noteq> [] \<and> (\<forall>c\<in>set p. is_digit c) \<and>
         Destination a = d \<and> Port a = word_of_nat (decimal_value p)))"
proof (intro conjI impI)
  show "ParseI2PAddr (d @ '':'') = Inl (InvalidPort [] ErrSyntax)"
    using ParseI2PAddr_colon [of "[]" d] by (simp add: ParseUint_def)
next
  assume h: "CHR '':'' \<in> set addr \<and> ParseI2PAddr addr = Inr a"
  then obtain d p where dp: "addr = d @ CHR '':'' # p" "CHR '':'' \<notin> set p"
    using split_list_last [of "CHR '':''" addr] by blast
  have ok: "p \<noteq> [] \<and> (\<forall>c\<in>set p. is_digit c) \<and> decimal_value p \<le> 65535"
  proof (rule ccontr)
    assume "\<not> ?thesis"
    from ParseUint_err [OF this] obtain e where "ParseUint p 10 16 = Inl e" ..
    with h dp show False by (simp add: ParseI2PAddr_colon)
  qed
  then have "ParseUint p 10 16 = Inr (decimal_value p)"
    by (simp add: ParseUint_ok)
  with h dp have "a = \<lparr>Destination = d, Port = word_of_nat (decimal_value p)\<rparr>"
    by (simp add: ParseI2PAddr_colon)
  with dp ok show "\<exists>d p. addr = d @ CHR '':'' # p \<and> p \<noteq> [] \<and> (\<forall>c\<in>set p. is_digit c) \<and>
         Destination a = d \<and> Port a = word_of_nat (decimal_value p)"
    by auto
qed

theorem ParseI2PAddr_trailing_colon_witness:
  "ParseI2PAddr ''dest:'' = Inl (InvalidPort [] ErrSyntax) \<and>
   CHR '':'' \<in> set ''dest:0'' \<and>
   ParseI2PAddr ''dest:0'' = Inr \<lparr>Destination = ''dest'', Port = 0\<rparr> \<and>
   (\<exists>d p. ''dest:0'' = d @ CHR '':'' # p \<and> p \<noteq> [] \<and> (\<forall>c\<in>set p. is_digit c) \<and>
      Destination \<lparr>Destination = ''dest'', Port = 0\<rparr> = d \<and>
      Port \<lparr>Destination = ''dest'', Port = 0 :: 16 word\<rparr> = word_of_nat (decimal_value p))"
proof -
  have r: "ParseI2PAddr ''dest:0'' = Inr \<lparr>Destination = ''dest'', Port = 0\<rparr>"
    by (simp add: ParseI2PAddr_def Split_def index_def slice_def Let_def ParseUint_10_16
        digit_value_def)
  have c: "CHR '':'' \<in> set ''dest:0''" by simp
  from ParseI2PAddr_trailing_colon [of "''dest''" "''dest:0''" "\<lparr>Destination = ''dest'', Port = 0\<rparr>"] r c
  show ?thesis by simp
qed

section \<open>Properties of the options mapping\<close>

subsection \<open>The size field\<close>

lemma size_code:
  "push_bit 8 (unat b0) OR unat (b1 :: byte) = unat (b0 :: byte) * 256 + unat b1"
proof -
  have "push_bit 8 (unat b0) + unat b1 = push_bit 8 (unat b0) OR unat b1"
    by (rule disjunctive_add) (auto simp: bit_simps dest: bit_imp_le_length)
  then show ?thesis by (simp add: push_bit_eq_mult)
qed

lemma size_lib:
  "unat (ucast (b1 :: byte) OR push_bit 8 (ucast (b0 :: byte)) :: 16 word) = unat b0 * 256 + unat b1"
proof -
  have "unat (ucast b1 OR push_bit 8 (ucast b0) :: 16 word) = push_bit 8 (unat b0) OR unat b1"
    by (rule bit_eqI) (auto simp: bit_simps dest: bit_imp_le_length)
  then show ?thesis by (simp add: size_code)
qed

subsection \<open>The record parser and the record grammar\<close>

lemma read_string_Some:
  "read_string bs = Some (s, rest) \<Longrightarrow> bs = s @ rest \<and> well_formed s"
  by (auto simp: read_string_def well_formed_def split: list.splits if_splits)

lemma read_string_well_formed:
  "well_formed s \<Longrightarrow> read_string (s @ rest) = Some (s, rest)"
  by (auto simp: read_string_def well_formed_def split: list.splits)

lemma read_pair_Inr:
  "read_pair off bs = Inr ((k, v), rest) \<Longrightarrow>
   bs = record_bytes (k, v) @ rest \<and> well_formed k \<and> well_formed v"
  by (auto simp: read_pair_def record_bytes_def split: option.splits list.splits if_splits
      dest!: read_string_Some)

lemma read_pair_well_formed:
  "well_formed k \<Longrightarrow> well_formed v \<Longrightarrow>
   read_pair off (record_bytes (k, v) @ rest) = Inr ((k, v), rest)"
  by (simp add: read_pair_def record_bytes_def read_string_well_formed)

lemma read_string_length: "read_string bs = Some (s, rest) \<Longrightarrow> length s + length rest = length bs"
  by (auto dest: read_string_Some)

lemma read_pair_Inl:
  "read_pair off bs = Inl e \<Longrightarrow> \<exists>n. e = MalformedPair n \<and> off \<le> n \<and> n \<le> off + length bs"
  by (auto simp: read_pair_def split: option.splits list.splits if_splits
      dest!: read_string_length)

lemma record_bytes_nonempty: "record_bytes kv \<noteq> []"
  by (simp add: record_bytes_def)

lemma parse_pairs_sound:
  "parse_pairs off bs = Inr ps \<Longrightarrow>
   bs = concat (map record_bytes ps) \<and> (\<forall>kv\<in>set ps. well_formed (fst kv) \<and> well_formed (snd kv))"
proof (induction off bs arbitrary: ps rule: parse_pairs.induct)
  case (1 off bs)
  show ?case
  proof (cases "bs = []")
    case True
    with "1.prems" show ?thesis by (simp add: parse_pairs.simps)
  next
    case False
    with "1.prems" obtain kv rest kvs where
      rp: "read_pair off bs = Inr (kv, rest)"
      and rec: "parse_pairs (off + (length bs - length rest)) rest = Inr kvs"
      and ps: "ps = kv # kvs"
      by (subst (asm) parse_pairs.simps) (auto split: sum.splits)
    from "1.IH" [OF False rp refl rec]
    have ih: "rest = concat (map record_bytes kvs)"
      "\<forall>kv\<in>set kvs. well_formed (fst kv) \<and> well_formed (snd kv)" by simp_all
    from rp have "bs = record_bytes kv @ rest \<and> well_formed (fst kv) \<and> well_formed (snd kv)"
      using read_pair_Inr [of off bs "fst kv" "snd kv" rest] by simp
    with ih ps show ?thesis by simp
  qed
qed

lemma parse_pairs_complete:
  "\<forall>kv\<in>set ps. well_formed (fst kv) \<and> well_formed (snd kv) \<Longrightarrow>
   parse_pairs off (concat (map record_bytes ps)) = Inr ps"
proof (induction ps arbitrary: off)
  case Nil
  show ?case by (simp add: parse_pairs.simps)
next
  case (Cons kv ps)
  let ?rest = "concat (map record_bytes ps)"
  have rp: "read_pair off (record_bytes kv @ ?rest) = Inr (kv, ?rest)"
    using Cons.prems read_pair_well_formed [of "fst kv" "snd kv" off ?rest] by simp
  have rec: "\<And>off'. parse_pairs off' ?rest = Inr ps"
    using Cons.IH Cons.prems by simp
  show ?case
    by (subst parse_pairs.simps) (simp add: rp rec record_bytes_nonempty)
qed

lemma parse_pairs_Inl:
  "parse_pairs off bs = Inl e \<Longrightarrow> \<exists>n. e = MalformedPair n \<and> off \<le> n \<and> n \<le> off + length bs"
proof (induction off bs rule: parse_pairs.induct)
  case (1 off bs)
  show ?case
  proof (cases "bs = []")
    case True
    with "1.prems" show ?thesis by (simp add: parse_pairs.simps)
  next
    case False
    show ?thesis
    proof (cases "read_pair off bs")
      case (Inl e')
      with False "1.prems" have "e = e'" by (subst (asm) parse_pairs.simps) simp
      with Inl read_pair_Inl show ?thesis by blast
    next
      case (Inr r)
      obtain kv rest where r: "r = (kv, rest)" by (cases r)
      with Inr False "1.prems" have rec: "parse_pairs (off + (length bs - length rest)) rest = Inl e"
        by (subst (asm) parse_pairs.simps) (auto split: sum.splits)
      from Inr r have "length rest < length bs" by (auto dest: read_pair_shorter)
      with "1.IH" [OF False Inr [unfolded r] refl rec] show ?thesis by auto
    qed
  qed
qed

subsection \<open>Decoding, step by step\<close>

lemma I2PString_Data_well_formed: "well_formed s \<Longrightarrow> I2PString_Data s = Inr (content s)"
  by (auto simp: well_formed_def I2PString_Data_def content_def split: list.splits)

lemma cell_update: "a < length h \<Longrightarrow> cell (h[a := m]) a = m"
  by (simp add: cell_def)

lemma store_pairs_well_formed:
  "a < length h \<Longrightarrow> \<forall>kv\<in>set ps. well_formed (fst kv) \<and> well_formed (snd kv) \<Longrightarrow>
   store_pairs h a ps =
     h[a := fold (\<lambda>kv m. AList.update (content (fst kv)) (content (snd kv)) m) ps (cell h a)]"
proof (induction ps arbitrary: h)
  case Nil
  then show ?case by (simp add: cell_def)
next
  case (Cons kv ps)
  have len: "a < length (map_store h a (content (fst kv)) (content (snd kv)))"
    using Cons.prems(1) by (simp add: map_store_def)
  show ?case
    using Cons.prems Cons.IH [OF len]
    by (simp add: I2PString_Data_well_formed map_store_def cell_update)
qed

lemma map_of_fold_update:
  "map_of (fold (\<lambda>kv m. AList.update (f kv) (g kv) m) ps m0) =
     foldl (\<lambda>m kv. m(f kv \<mapsto> g kv)) (map_of m0) ps"
  by (induction ps arbitrary: m0) (simp_all add: update_conv')

lemma OptionsFromBytes_cases:
  "OptionsFromBytes h raw =
     (if length raw < 2 then Inl (OptionsTooShort 2 (length raw))
      else if wire_size raw = 0
        then Inr (h @ [[]], \<lparr>mapping = None, values = Some (length h)\<rparr>, 2)
      else if length raw < 2 + wire_size raw
        then Inl (OptionsParseFailed (SizeMismatch (2 + wire_size raw) (length raw)))
      else
        (case parse_pairs 2 (take (wire_size raw) (drop 2 raw)) of
           Inl e \<Rightarrow> Inl (OptionsParseFailed e)
         | Inr kvs \<Rightarrow>
             Inr (store_pairs (h @ [[]]) (length h) kvs,
                  \<lparr>mapping = Some \<lparr>vals = kvs\<rparr>, values = Some (length h)\<rparr>,
                  2 + wire_size raw)))"
  by (simp add: OptionsFromBytes_def index_def size_code size_lib wire_size_def ReadMapping_def
      make_map_def Mapping_Values_def Let_def split: sum.splits)

lemma OptionsFromBytes_Inr:
  assumes "OptionsFromBytes h raw = Inr (h', s, n)"
  shows "2 \<le> length raw \<and> n = 2 + wire_size raw \<and> n \<le> length raw \<and>
     values s = Some (length h) \<and>
     (\<exists>ps. (\<forall>kv\<in>set ps. well_formed (fst kv) \<and> well_formed (snd kv)) \<and>
        take (wire_size raw) (drop 2 raw) = concat (map record_bytes ps) \<and>
        (wire_size raw = 0 \<longrightarrow> mapping s = None) \<and>
        (wire_size raw \<noteq> 0 \<longrightarrow> mapping s = Some \<lparr>vals = ps\<rparr>) \<and>
        h' = h @ [fold (\<lambda>kv m. AList.update (content (fst kv)) (content (snd kv)) m) ps []])"
proof (cases "wire_size raw = 0")
  case True
  with assms show ?thesis
    by (auto simp: OptionsFromBytes_cases split: if_splits intro!: exI [of _ "[]"])
next
  case False
  with assms obtain kvs where
    len: "2 \<le> length raw" "2 + wire_size raw \<le> length raw"
    and pp: "parse_pairs 2 (take (wire_size raw) (drop 2 raw)) = Inr kvs"
    and res: "h' = store_pairs (h @ [[]]) (length h) kvs"
      "s = \<lparr>mapping = Some \<lparr>vals = kvs\<rparr>, values = Some (length h)\<rparr>" "n = 2 + wire_size raw"
    by (auto simp: OptionsFromBytes_cases split: if_splits sum.splits)
  from parse_pairs_sound [OF pp]
  have snd: "take (wire_size raw) (drop 2 raw) = concat (map record_bytes kvs)"
    and wf: "\<forall>kv\<in>set kvs. well_formed (fst kv) \<and> well_formed (snd kv)" by simp_all
  have "h' = h @ [fold (\<lambda>kv m. AList.update (content (fst kv)) (content (snd kv)) m) kvs []]"
    unfolding res(1) by (subst store_pairs_well_formed [OF _ wf]) (simp_all add: cell_def)
  with len res snd wf False show ?thesis by auto
qed

text \<open>The definitions that evaluate the model on given bytes.\<close>

lemmas options_eval = OptionsFromBytes_def ReadMapping_def parse_pairs.simps read_pair_def
  read_string_def index_def make_map_def Mapping_Values_def I2PString_Data_def string_of_def
  map_store_def cell_def Let_def Options_Bytes_def deref_def Mapping_Data_def record_bytes_def
  size_field_def GoMapToMapping_def map_get_def ToI2PString_def bytes_of_def NewOptions_def
  EmptyOptions_def record_keys_def content_def char_of_def bit_Suc_0_iff

subsection \<open>Decoding is all or nothing\<close>

text \<open>
  Claim C2. On every input the decoder does one of four things. Fewer than 2 bytes: the too
  short error. A size field that asks for more bytes than there are: the size mismatch
  error. A region that is no sequence of records of the grammar: the malformed pair error,
  with an offset inside the block. A region that is the records \<open>ps\<close>: success, with
  \<open>2 + size\<close> bytes consumed and a map that holds every record of \<open>ps\<close>, a later record
  for the same key replacing the earlier one; no record is skipped. An error comes without
  a value.
\<close>

theorem OptionsFromBytes_all_or_nothing:
  "(length raw < 2 \<longrightarrow> OptionsFromBytes h raw = Inl (OptionsTooShort 2 (length raw))) \<and>
   (2 \<le> length raw \<and> length raw < 2 + wire_size raw \<longrightarrow>
      OptionsFromBytes h raw =
        Inl (OptionsParseFailed (SizeMismatch (2 + wire_size raw) (length raw)))) \<and>
   (2 \<le> length raw \<and> 2 + wire_size raw \<le> length raw \<and>
    \<not> (\<exists>ps. (\<forall>kv\<in>set ps. well_formed (fst kv) \<and> well_formed (snd kv)) \<and>
            take (wire_size raw) (drop 2 raw) = concat (map record_bytes ps)) \<longrightarrow>
      (\<exists>off. OptionsFromBytes h raw = Inl (OptionsParseFailed (MalformedPair off)) \<and>
             2 \<le> off \<and> off \<le> 2 + wire_size raw)) \<and>
   (2 \<le> length raw \<and> 2 + wire_size raw \<le> length raw \<and>
    (\<forall>kv\<in>set ps. well_formed (fst kv) \<and> well_formed (snd kv)) \<and>
    take (wire_size raw) (drop 2 raw) = concat (map record_bytes ps) \<longrightarrow>
      (\<exists>h' s. OptionsFromBytes h raw = Inr (h', s, 2 + wire_size raw) \<and>
         map_of (deref h' (values s)) =
           foldl (\<lambda>m kv. m(content (fst kv) \<mapsto> content (snd kv))) Map.empty ps))"
proof (intro conjI impI)
  assume "length raw < 2"
  then show "OptionsFromBytes h raw = Inl (OptionsTooShort 2 (length raw))"
    by (simp add: OptionsFromBytes_cases)
next
  assume a: "2 \<le> length raw \<and> length raw < 2 + wire_size raw"
  then have "wire_size raw \<noteq> 0" by auto
  with a show "OptionsFromBytes h raw =
        Inl (OptionsParseFailed (SizeMismatch (2 + wire_size raw) (length raw)))"
    by (simp add: OptionsFromBytes_cases)
next
  assume a: "2 \<le> length raw \<and> 2 + wire_size raw \<le> length raw \<and>
    \<not> (\<exists>ps. (\<forall>kv\<in>set ps. well_formed (fst kv) \<and> well_formed (snd kv)) \<and>
            take (wire_size raw) (drop 2 raw) = concat (map record_bytes ps))"
  let ?region = "take (wire_size raw) (drop 2 raw)"
  have nz: "wire_size raw \<noteq> 0"
  proof
    assume "wire_size raw = 0"
    then have "(\<forall>kv\<in>set []. well_formed (fst kv) \<and> well_formed (snd kv)) \<and>
        take (wire_size raw) (drop 2 raw) = concat (map record_bytes [])" by simp
    with a show False by blast
  qed
  from a have "2 + wire_size raw \<le> length raw" by blast
  then have len: "length ?region = wire_size raw" by simp
  show "\<exists>off. OptionsFromBytes h raw = Inl (OptionsParseFailed (MalformedPair off)) \<and>
             2 \<le> off \<and> off \<le> 2 + wire_size raw"
  proof (cases "parse_pairs 2 ?region")
    case (Inl e)
    from parse_pairs_Inl [OF Inl] len obtain n where
      "e = MalformedPair n" "2 \<le> n" "n \<le> 2 + wire_size raw" by auto
    with Inl a nz show ?thesis by (simp add: OptionsFromBytes_cases)
  next
    case (Inr kvs)
    from parse_pairs_sound [OF Inr] a show ?thesis by blast
  qed
next
  assume a: "2 \<le> length raw \<and> 2 + wire_size raw \<le> length raw \<and>
    (\<forall>kv\<in>set ps. well_formed (fst kv) \<and> well_formed (snd kv)) \<and>
    take (wire_size raw) (drop 2 raw) = concat (map record_bytes ps)"
  then have wf: "\<forall>kv\<in>set ps. well_formed (fst kv) \<and> well_formed (snd kv)"
    and reg: "take (wire_size raw) (drop 2 raw) = concat (map record_bytes ps)" by simp_all
  have pp: "parse_pairs 2 (take (wire_size raw) (drop 2 raw)) = Inr ps"
    unfolding reg by (rule parse_pairs_complete [OF wf])
  show "\<exists>h' s. OptionsFromBytes h raw = Inr (h', s, 2 + wire_size raw) \<and>
         map_of (deref h' (values s)) =
           foldl (\<lambda>m kv. m(content (fst kv) \<mapsto> content (snd kv))) Map.empty ps"
  proof (cases "wire_size raw = 0")
    case True
    with reg have "ps = []"
      by (cases ps) (simp_all add: record_bytes_def)
    with True a show ?thesis
      by (simp add: OptionsFromBytes_cases deref_def cell_def)
  next
    case False
    have st: "store_pairs (h @ [[]]) (length h) ps =
        h @ [fold (\<lambda>kv m. AList.update (content (fst kv)) (content (snd kv)) m) ps []]"
      by (subst store_pairs_well_formed [OF _ wf]) (simp_all add: cell_def)
    from False a pp show ?thesis
      by (simp add: OptionsFromBytes_cases st deref_def cell_def map_of_fold_update)
  qed
qed

theorem OptionsFromBytes_all_or_nothing_witness:
  "OptionsFromBytes [] [0x00] = Inl (OptionsTooShort 2 1) \<and>
   OptionsFromBytes [] [0x00, 0x0A] = Inl (OptionsParseFailed (SizeMismatch 12 2)) \<and>
   (\<exists>off. OptionsFromBytes [] [0x00, 0x09, 0x03, 0x66, 0x6f, 0x6f, 0x03, 0x62, 0x61, 0x72, 0x3b]
            = Inl (OptionsParseFailed (MalformedPair off)) \<and> 2 \<le> off \<and> off \<le> 11) \<and>
   (\<exists>h' s. OptionsFromBytes []
             [0x00, 0x0C, 1, 0x61, 0x3d, 1, 0x31, 0x3b, 1, 0x61, 0x3d, 1, 0x32, 0x3b]
            = Inr (h', s, 14) \<and>
          map_of (deref h' (values s)) = [''a'' \<mapsto> ''2''])"
proof -
  have a: "OptionsFromBytes [] [0x00] = Inl (OptionsTooShort 2 1)"
    using OptionsFromBytes_all_or_nothing [of "[0x00]" "[]" "[]"] by simp
  have b: "OptionsFromBytes [] [0x00, 0x0A] = Inl (OptionsParseFailed (SizeMismatch 12 2))"
    using OptionsFromBytes_all_or_nothing [of "[0x00, 0x0A]" "[]" "[]"]
    by (simp add: wire_size_def)
  let ?bad = "[0x00, 0x09, 0x03, 0x66, 0x6f, 0x6f, 0x03, 0x62, 0x61, 0x72, 0x3b] :: byte list"
  have ws: "wire_size ?bad = 9" by (simp add: wire_size_def)
  have bad: "parse_pairs 2 (take 9 (drop 2 ?bad)) = Inl (MalformedPair 6)"
    by (simp add: parse_pairs.simps read_pair_def read_string_def)
  have no: "\<not> (\<exists>ps. (\<forall>kv\<in>set ps. well_formed (fst kv) \<and> well_formed (snd kv)) \<and>
            take (wire_size ?bad) (drop 2 ?bad) = concat (map record_bytes ps))"
  proof
    assume "\<exists>ps. (\<forall>kv\<in>set ps. well_formed (fst kv) \<and> well_formed (snd kv)) \<and>
            take (wire_size ?bad) (drop 2 ?bad) = concat (map record_bytes ps)"
    then obtain ps where wf: "\<forall>kv\<in>set ps. well_formed (fst kv) \<and> well_formed (snd kv)"
      and reg: "take (wire_size ?bad) (drop 2 ?bad) = concat (map record_bytes ps)" by blast
    from parse_pairs_complete [OF wf, of 2] reg [symmetric] bad ws show False by simp
  qed
  have c: "\<exists>off. OptionsFromBytes [] ?bad = Inl (OptionsParseFailed (MalformedPair off)) \<and>
      2 \<le> off \<and> off \<le> 11"
    using OptionsFromBytes_all_or_nothing [of ?bad "[]" "[]"] no ws by simp
  let ?dup = "[0x00, 0x0C, 1, 0x61, 0x3d, 1, 0x31, 0x3b, 1, 0x61, 0x3d, 1, 0x32, 0x3b] :: byte list"
  let ?ps = "[([1, 0x61], [1, 0x31]), ([1, 0x61], [1, 0x32])] :: (I2PString \<times> I2PString) list"
  have d: "\<exists>h' s. OptionsFromBytes [] ?dup = Inr (h', s, 14) \<and>
      map_of (deref h' (values s)) = [''a'' \<mapsto> ''2'']"
    using OptionsFromBytes_all_or_nothing [of ?dup "[]" ?ps]
    by (simp add: wire_size_def well_formed_def record_bytes_def content_def string_of_def
        char_of_def bit_Suc_0_iff)
  from a b c d show ?thesis by blast
qed

subsection \<open>The bytes consumed\<close>

text \<open>
  Claim C6. Whenever the decoder succeeds, the bytes consumed are 2 plus the size that the
  first two bytes give as a big-endian number, whatever the records are, and they are
  within the input, so that what follows is left to the caller. The two bytes \<open>0x00, 0x00\<close>
  decode to an empty mapping with 2 bytes consumed.
\<close>

theorem OptionsFromBytes_consumed:
  "(OptionsFromBytes h raw = Inr (h', s, n) \<longrightarrow>
      2 \<le> length raw \<and> n = 2 + wire_size raw \<and> n \<le> length raw) \<and>
   OptionsFromBytes h [0x00, 0x00] =
      Inr (h @ [[]], \<lparr>mapping = None, values = Some (length h)\<rparr>, 2) \<and>
   Options_IsEmpty (h @ [[]]) (Some \<lparr>mapping = None, values = Some (length h)\<rparr>)"
proof -
  have a: "OptionsFromBytes h raw = Inr (h', s, n) \<longrightarrow>
      2 \<le> length raw \<and> n = 2 + wire_size raw \<and> n \<le> length raw"
    using OptionsFromBytes_Inr [of h raw h' s n] by blast
  have b: "OptionsFromBytes h [0x00, 0x00] =
      Inr (h @ [[]], \<lparr>mapping = None, values = Some (length h)\<rparr>, 2)"
    by (simp add: OptionsFromBytes_cases wire_size_def)
  have c: "Options_IsEmpty (h @ [[]]) (Some \<lparr>mapping = None, values = Some (length h)\<rparr>)"
    by (simp add: Options_IsEmpty_def deref_def cell_def)
  from a b c show ?thesis by blast
qed

theorem OptionsFromBytes_consumed_witness:
  "OptionsFromBytes []
     [0x00, 0x0A, 0x03, 0x66, 0x6f, 0x6f, 0x3d, 0x03, 0x62, 0x61, 0x72, 0x3b, 0xFF, 0xFF, 0xFF]
     = Inr ([[(''foo'', ''bar'')]],
            \<lparr>mapping = Some \<lparr>vals = [([0x03, 0x66, 0x6f, 0x6f], [0x03, 0x62, 0x61, 0x72])]\<rparr>,
               values = Some 0\<rparr>, 12) \<and>
   (12::nat) = 2 + wire_size
     [0x00, 0x0A, 0x03, 0x66, 0x6f, 0x6f, 0x3d, 0x03, 0x62, 0x61, 0x72, 0x3b, 0xFF, 0xFF, 0xFF] \<and>
   (12::nat) \<le> length
     [0x00, 0x0A, 0x03, 0x66, 0x6f, 0x6f, 0x3d, 0x03, 0x62, 0x61, 0x72, 0x3b, 0xFF, 0xFF, 0xFF :: byte]"
proof -
  let ?raw = "[0x00, 0x0A, 0x03, 0x66, 0x6f, 0x6f, 0x3d, 0x03, 0x62, 0x61, 0x72, 0x3b,
     0xFF, 0xFF, 0xFF] :: byte list"
  have e: "OptionsFromBytes [] ?raw
     = Inr ([[(''foo'', ''bar'')]],
            \<lparr>mapping = Some \<lparr>vals = [([0x03, 0x66, 0x6f, 0x6f], [0x03, 0x62, 0x61, 0x72])]\<rparr>,
               values = Some 0\<rparr>, 12)"
    by (simp add: options_eval)
  from OptionsFromBytes_consumed [of "[]" ?raw "[[(''foo'', ''bar'')]]"
      "\<lparr>mapping = Some \<lparr>vals = [([0x03, 0x66, 0x6f, 0x6f], [0x03, 0x62, 0x61, 0x72])]\<rparr>,
         values = Some 0\<rparr>" 12] e
  show ?thesis by simp
qed

subsection \<open>Encoding: the order of the keys\<close>

lemma char_of_unat_of_char: "char_of (unat (of_char c :: byte)) = c"
proof -
  have "(of_char c :: byte) = of_nat (of_char c)"
    by (simp only: of_nat_of_char)
  then have "unat (of_char c :: byte) = unat (of_nat (of_char c) :: byte)"
    by (rule arg_cong)
  also have "\<dots> = of_char c mod 2 ^ LENGTH(8)"
    by (rule unat_of_nat)
  also have "\<dots> = of_char c"
    by simp
  finally show ?thesis
    by (simp only: char_of_char)
qed

lemma string_of_bytes_of: "string_of (bytes_of s) = s"
  by (induction s) (simp_all add: string_of_def bytes_of_def char_of_unat_of_char)

lemma ToI2PString_well_formed: "length s \<le> 255 \<Longrightarrow> well_formed (ToI2PString s)"
  by (simp add: ToI2PString_def well_formed_def bytes_of_def unat_of_nat)

lemma content_ToI2PString: "content (ToI2PString s) = s"
  by (simp add: content_def ToI2PString_def string_of_bytes_of)

lemma validate_entries_None:
  "validate_entries es = None \<Longrightarrow> \<forall>kv\<in>set es. length (fst kv) \<le> 255 \<and> length (snd kv) \<le> 255"
  by (induction es) (auto split: if_splits)

lemma GoMapToMapping_Inr:
  assumes "GoMapToMapping m = Inr mp"
  shows "map (\<lambda>kv. content (fst kv)) (vals mp) = sort (map fst m) \<and>
         (\<forall>kv\<in>set (vals mp). well_formed (fst kv) \<and> well_formed (snd kv))"
proof -
  let ?es = "map (\<lambda>k. (k, map_get m k)) (sort (map fst m))"
  from assms have v: "validate_entries ?es = None"
    and mp: "vals mp = map (\<lambda>kv. (ToI2PString (fst kv), ToI2PString (snd kv))) ?es"
    by (auto simp: GoMapToMapping_def Let_def split: option.splits)
  from validate_entries_None [OF v] mp
  have wf: "\<forall>kv\<in>set (vals mp). well_formed (fst kv) \<and> well_formed (snd kv)"
    by (auto simp: ToI2PString_well_formed)
  have "map (\<lambda>kv. content (fst kv)) (vals mp) = sort (map fst m)"
    unfolding mp by (simp add: comp_def content_ToI2PString)
  with wf show ?thesis by simp
qed

lemma map_insort_key: "map f (insort_key f x ys) = insort (f x) (map f ys)"
  by (induction ys) simp_all

lemma map_sort_key: "map f (sort_key f xs) = sort (map f xs)"
  by (induction xs) (simp_all add: map_insort_key)

lemma record_keys_Mapping_Data:
  assumes "list_all (\<lambda>kv. well_formed (fst kv) \<and> well_formed (snd kv)) (vals mp)"
  shows "record_keys (Mapping_Data mp) = sort (map (\<lambda>kv. content (fst kv)) (vals mp))"
proof -
  let ?sv = "sort_key (\<lambda>kv. content (fst kv)) (vals mp)"
  from assms have "\<forall>kv\<in>set ?sv. well_formed (fst kv) \<and> well_formed (snd kv)"
    by (simp add: list_all_iff)
  then have "parse_pairs 2 (concat (map record_bytes ?sv)) = Inr ?sv"
    by (rule parse_pairs_complete)
  then have "record_keys (Mapping_Data mp) = map (\<lambda>kv. content (fst kv)) ?sv"
    by (simp add: record_keys_def Mapping_Data_def size_field_def Let_def)
  then show ?thesis by (simp add: map_sort_key)
qed

lemma record_keys_empty: "record_keys [0x00, 0x00] = []"
  by (simp add: record_keys_def parse_pairs.simps)

lemma GoMapToMapping_well_formed:
  "GoMapToMapping m = Inr mp \<Longrightarrow>
   list_all (\<lambda>kv. well_formed (fst kv) \<and> well_formed (snd kv)) (vals mp)"
  using GoMapToMapping_Inr [of m mp] by (simp add: list_all_iff)

lemma OptionsFromBytes_well_formed:
  "OptionsFromBytes h raw = Inr (h', s', n) \<Longrightarrow> well_formed_options s'"
  using OptionsFromBytes_Inr [of h raw h' s' n]
  by (cases "wire_size raw = 0") (auto simp: well_formed_options_def list_all_iff)

text \<open>
  Claim C1. Every way of building an instance gives a well-formed one: \<open>EmptyOptions\<close>,
  \<open>NewOptions\<close>, a successful \<open>OptionsFromBytes\<close>, a \<open>Set\<close>. For every well-formed instance,
  and for the nil receiver, the records that \<open>Bytes\<close> emits when it succeeds have their keys
  in ascending order of their bytes: they are the sorted keys of the map, or of the cached
  mapping when the instance holds one. A map with the keys \<open>c\<close>, \<open>a\<close>, \<open>b\<close> gives the record
  for \<open>a\<close>, then the one for \<open>b\<close>, then the one for \<open>c\<close>; a block decoded with the record
  for \<open>b\<close> before the one for \<open>a\<close> is encoded with \<open>a\<close> before \<open>b\<close>.
\<close>

theorem Options_Bytes_sorted:
  "well_formed_options (snd (EmptyOptions h)) \<and>
   well_formed_options (snd (NewOptions h m)) \<and>
   (OptionsFromBytes h raw = Inr (h', s', n) \<longrightarrow> well_formed_options s') \<and>
   (Options_Set h (Some s) key val = Inr (h', s') \<longrightarrow> well_formed_options s') \<and>
   Options_Bytes h None = Inr [0x00, 0x00] \<and>
   record_keys [0x00, 0x00] = [] \<and>
   (well_formed_options s \<and> Options_Bytes h (Some s) = Inr bs \<longrightarrow>
      sorted (record_keys bs) \<and>
      record_keys bs =
        (if deref h (values s) = [] then []
         else case mapping s of
                None \<Rightarrow> sort (map fst (deref h (values s)))
              | Some mp \<Rightarrow> sort (map (\<lambda>kv. content (fst kv)) (vals mp))))"
proof -
  have a: "well_formed_options (snd (EmptyOptions h))"
    by (simp add: EmptyOptions_def make_map_def well_formed_options_def)
  have b: "well_formed_options (snd (NewOptions h m))"
    by (simp add: NewOptions_def EmptyOptions_def make_map_def well_formed_options_def
        split: option.splits)
  have c: "OptionsFromBytes h raw = Inr (h', s', n) \<longrightarrow> well_formed_options s'"
    using OptionsFromBytes_well_formed by blast
  have d: "Options_Set h (Some s) key val = Inr (h', s') \<longrightarrow> well_formed_options s'"
    by (auto simp: Options_Set_def Let_def well_formed_options_def split: prod.splits)
  have e: "Options_Bytes h None = Inr [0x00, 0x00]"
    by (simp add: Options_Bytes_def)
  have f: "sorted (record_keys bs) \<and>
      record_keys bs =
        (if deref h (values s) = [] then []
         else case mapping s of
                None \<Rightarrow> sort (map fst (deref h (values s)))
              | Some mp \<Rightarrow> sort (map (\<lambda>kv. content (fst kv)) (vals mp)))"
    if wf: "well_formed_options s" and enc: "Options_Bytes h (Some s) = Inr bs"
  proof (cases "deref h (values s) = []")
    case True
    with enc have "bs = [0x00, 0x00]" by (simp add: Options_Bytes_def)
    with True show ?thesis by (simp add: record_keys_empty)
  next
    case False
    show ?thesis
    proof (cases "mapping s")
      case None
      with False enc obtain mp where g: "GoMapToMapping (deref h (values s)) = Inr mp"
        and bs: "bs = Mapping_Data mp"
        by (auto simp: Options_Bytes_def split: sum.splits)
      from GoMapToMapping_Inr [OF g]
      have "map (\<lambda>kv. content (fst kv)) (vals mp) = sort (map fst (deref h (values s)))"
        by simp
      with record_keys_Mapping_Data [OF GoMapToMapping_well_formed [OF g]] bs
      have "record_keys bs = sort (map fst (deref h (values s)))"
        by (simp add: sorted_sort_id)
      with False None show ?thesis by simp
    next
      case (Some mp)
      with False enc have bs: "bs = Mapping_Data mp"
        by (simp add: Options_Bytes_def)
      from wf Some
      have "list_all (\<lambda>kv. well_formed (fst kv) \<and> well_formed (snd kv)) (vals mp)"
        by (simp add: well_formed_options_def)
      from record_keys_Mapping_Data [OF this] bs
      have "record_keys bs = sort (map (\<lambda>kv. content (fst kv)) (vals mp))" by simp
      with False Some show ?thesis by simp
    qed
  qed
  from a b c d e f record_keys_empty show ?thesis by blast
qed

theorem Options_Bytes_sorted_witness:
  "OptionsFromBytes [] [0x00, 0x0C, 1, 0x62, 0x3d, 1, 0x32, 0x3b, 1, 0x61, 0x3d, 1, 0x31, 0x3b]
     = Inr ([[(''b'', ''2''), (''a'', ''1'')]],
            \<lparr>mapping = Some \<lparr>vals = [([1, 0x62], [1, 0x32]), ([1, 0x61], [1, 0x31])]\<rparr>,
               values = Some 0\<rparr>, 14) \<and>
   well_formed_options
     \<lparr>mapping = Some \<lparr>vals = [([1, 0x62], [1, 0x32]), ([1, 0x61], [1, 0x31])]\<rparr>,
        values = Some 0\<rparr> \<and>
   Options_Bytes [[(''b'', ''2''), (''a'', ''1'')]]
     (Some \<lparr>mapping = Some \<lparr>vals = [([1, 0x62], [1, 0x32]), ([1, 0x61], [1, 0x31])]\<rparr>,
             values = Some 0\<rparr>)
     = Inr [0x00, 0x0C, 1, 0x61, 0x3d, 1, 0x31, 0x3b, 1, 0x62, 0x3d, 1, 0x32, 0x3b] \<and>
   record_keys [0x00, 0x0C, 1, 0x61, 0x3d, 1, 0x31, 0x3b, 1, 0x62, 0x3d, 1, 0x32, 0x3b]
     = [''a'', ''b''] \<and>
   NewOptions [[(''c'', ''3''), (''a'', ''1''), (''b'', ''2'')]] (Some 0) =
     ([[(''c'', ''3''), (''a'', ''1''), (''b'', ''2'')],
       [(''c'', ''3''), (''a'', ''1''), (''b'', ''2'')]], \<lparr>mapping = None, values = Some 1\<rparr>) \<and>
   well_formed_options \<lparr>mapping = None, values = Some 1\<rparr> \<and>
   Options_Bytes [[(''c'', ''3''), (''a'', ''1''), (''b'', ''2'')],
                  [(''c'', ''3''), (''a'', ''1''), (''b'', ''2'')]]
      (Some \<lparr>mapping = None, values = Some 1\<rparr>)
     = Inr [0, 18, 1, 0x61, 0x3d, 1, 0x31, 0x3b, 1, 0x62, 0x3d, 1, 0x32, 0x3b,
            1, 0x63, 0x3d, 1, 0x33, 0x3b] \<and>
   record_keys [0, 18, 1, 0x61, 0x3d, 1, 0x31, 0x3b, 1, 0x62, 0x3d, 1, 0x32, 0x3b,
            1, 0x63, 0x3d, 1, 0x33, 0x3b] = [''a'', ''b'', ''c''] \<and>
   sorted (record_keys [0, 18, 1, 0x61, 0x3d, 1, 0x31, 0x3b, 1, 0x62, 0x3d, 1, 0x32, 0x3b,
            1, 0x63, 0x3d, 1, 0x33, 0x3b]) \<and>
   Options_Set [[]] (Some \<lparr>mapping = Some \<lparr>vals = []\<rparr>, values = Some 0\<rparr>) ''k'' ''v''
     = Inr ([[(''k'', ''v'')]], \<lparr>mapping = None, values = Some 0\<rparr>) \<and>
   well_formed_options \<lparr>mapping = None, values = Some 0\<rparr>"
proof -
  let ?raw = "[0x00, 0x0C, 1, 0x62, 0x3d, 1, 0x32, 0x3b, 1, 0x61, 0x3d, 1, 0x31, 0x3b] :: byte list"
  let ?hd = "[[(''b'', ''2''), (''a'', ''1'')]] :: heap"
  let ?sd = "\<lparr>mapping = Some \<lparr>vals = [([1, 0x62], [1, 0x32]), ([1, 0x61], [1, 0x31])]\<rparr>,
               values = Some 0\<rparr>"
  let ?out = "[0x00, 0x0C, 1, 0x61, 0x3d, 1, 0x31, 0x3b, 1, 0x62, 0x3d, 1, 0x32, 0x3b] :: byte list"
  have dec: "OptionsFromBytes [] ?raw = Inr (?hd, ?sd, 14)"
    by (simp add: options_eval)
  from Options_Bytes_sorted [where h = "[]" and raw = ?raw and h' = ?hd and s' = ?sd and n = 14] dec
  have wfd: "well_formed_options ?sd" by simp
  have encd: "Options_Bytes ?hd (Some ?sd) = Inr ?out"
    by (simp add: options_eval)
  from Options_Bytes_sorted [where h = ?hd and s = ?sd and bs = ?out] wfd encd
  have kd: "record_keys ?out = [''a'', ''b'']"
    by (simp add: deref_def cell_def content_def string_of_def char_of_def bit_Suc_0_iff)
  let ?h = "[[(''c'', ''3''), (''a'', ''1''), (''b'', ''2'')],
             [(''c'', ''3''), (''a'', ''1''), (''b'', ''2'')]] :: heap"
  let ?s = "\<lparr>mapping = None, values = Some 1\<rparr>"
  let ?bs = "[0, 18, 1, 0x61, 0x3d, 1, 0x31, 0x3b, 1, 0x62, 0x3d, 1, 0x32, 0x3b,
            1, 0x63, 0x3d, 1, 0x33, 0x3b] :: byte list"
  have new: "NewOptions [[(''c'', ''3''), (''a'', ''1''), (''b'', ''2'')]] (Some 0) = (?h, ?s)"
    by (simp add: options_eval)
  from Options_Bytes_sorted [where h = "[[(''c'', ''3''), (''a'', ''1''), (''b'', ''2'')]]"
      and m = "Some 0"] new
  have wfn: "well_formed_options ?s" by simp
  have enc: "Options_Bytes ?h (Some ?s) = Inr ?bs"
    by (simp add: options_eval)
  from Options_Bytes_sorted [where h = ?h and s = ?s and bs = ?bs] wfn enc
  have k: "record_keys ?bs = [''a'', ''b'', ''c''] \<and> sorted (record_keys ?bs)"
    by (simp add: deref_def cell_def)
  have set: "Options_Set [[]] (Some \<lparr>mapping = Some \<lparr>vals = []\<rparr>, values = Some 0\<rparr>) ''k'' ''v''
      = Inr ([[(''k'', ''v'')]], \<lparr>mapping = None, values = Some 0\<rparr>)"
    by (simp add: Options_Set_def map_store_def cell_def)
  with Options_Bytes_sorted [where h = "[[]]" and key = "''k''" and val = "''v''"
      and s = "\<lparr>mapping = Some \<lparr>vals = []\<rparr>, values = Some 0\<rparr>"
      and h' = "[[(''k'', ''v'')]]" and s' = "\<lparr>mapping = None, values = Some 0\<rparr>"]
  have wfs: "well_formed_options \<lparr>mapping = None, values = Some 0\<rparr>" by simp
  from dec wfd encd kd new wfn enc k set wfs show ?thesis by simp
qed

subsection \<open>Copies of maps\<close>

lemma update_fresh: "k \<notin> fst ` set al \<Longrightarrow> AList.update k v al = al @ [(k, v)]"
  by (induction al) auto

lemma fold_update_distinct:
  "distinct (map fst m) \<Longrightarrow> fst ` set m \<inter> fst ` set acc = {} \<Longrightarrow>
   fold (\<lambda>kv acc. AList.update (fst kv) (snd kv) acc) m acc = acc @ m"
proof (induction m arbitrary: acc)
  case Nil
  show ?case by simp
next
  case (Cons kv m)
  from Cons.prems have fresh: "fst kv \<notin> fst ` set acc" by auto
  have "fst ` set m \<inter> fst ` set (acc @ [kv]) = {}"
    using Cons.prems by auto
  with Cons.IH [of "acc @ [kv]"] Cons.prems(1) show ?case
    by (simp add: update_fresh [OF fresh])
qed

lemma copy_entries_eq:
  "a < length h \<Longrightarrow>
   copy_entries h a m = h[a := fold (\<lambda>kv acc. AList.update (fst kv) (snd kv) acc) m (cell h a)]"
proof (induction m arbitrary: h)
  case Nil
  then show ?case by (simp add: cell_def)
next
  case (Cons kv m)
  have "a < length (map_store h a (fst kv) (snd kv))"
    using Cons.prems by (simp add: map_store_def)
  from Cons.IH [OF this] Cons.prems show ?case
    by (simp add: map_store_def cell_update)
qed

lemma copy_entries_fresh:
  "distinct (map fst m) \<Longrightarrow> copy_entries (h @ [[]]) (length h) m = h @ [m]"
  by (simp add: copy_entries_eq cell_def fold_update_distinct)

lemma Options_Get_deref: "Options_Get h (Some s) key = map_get (deref h (values s)) key"
  by (simp add: Options_Get_def deref_def map_get_def split: option.splits)

lemma Options_Has_deref:
  "Options_Has h (Some s) key = (map_of (deref h (values s)) key \<noteq> None)"
  by (simp add: Options_Has_def deref_def split: option.splits)

lemma deref_append:
  "valid_ref h r \<Longrightarrow> deref (h @ [m]) r = deref h r"
  by (auto simp: valid_ref_def deref_def cell_def nth_append split: option.splits)

lemma Options_ToMap_eq:
  "valid_ref h (values s) \<Longrightarrow>
   Options_ToMap h (Some s) = (h @ [deref h (values s)], length h)"
  by (auto simp: Options_ToMap_def valid_ref_def deref_def make_map_def copy_entries_fresh
      split: option.splits)

lemma NewOptions_eq:
  "valid_ref h (Some a) \<Longrightarrow>
   NewOptions h (Some a) = (h @ [cell h a], \<lparr>mapping = None, values = Some (length h)\<rparr>)"
  by (simp add: NewOptions_def valid_ref_def make_map_def copy_entries_fresh)

text \<open>
  Claim C9. \<open>ToMap\<close> returns a new map with the content of the receiver's map: whatever is
  then written into the returned map, \<open>Get\<close>, \<open>Has\<close>, \<open>IsEmpty\<close> and \<open>Bytes\<close> of the receiver
  give what they gave before. \<open>NewOptions\<close> copies the caller's map into a new one:
  whatever the caller then writes into its own map, the four give what they gave when the
  instance was built.
\<close>

theorem ToMap_NewOptions_independent:
  "(valid_ref h (values s) \<longrightarrow>
      (\<exists>h1 r. Options_ToMap h (Some s) = (h1, r) \<and> cell h1 r = deref h (values s) \<and>
         (\<forall>m key.
            Options_Get (h1[r := m]) (Some s) key = Options_Get h (Some s) key \<and>
            Options_Has (h1[r := m]) (Some s) key = Options_Has h (Some s) key \<and>
            Options_IsEmpty (h1[r := m]) (Some s) = Options_IsEmpty h (Some s) \<and>
            Options_Bytes (h1[r := m]) (Some s) = Options_Bytes h (Some s)))) \<and>
   (valid_ref h (Some a) \<longrightarrow>
      (\<exists>h1 s1. NewOptions h (Some a) = (h1, s1) \<and> deref h1 (values s1) = cell h a \<and>
         (\<forall>m key.
            Options_Get (h1[a := m]) (Some s1) key = Options_Get h1 (Some s1) key \<and>
            Options_Has (h1[a := m]) (Some s1) key = Options_Has h1 (Some s1) key \<and>
            Options_IsEmpty (h1[a := m]) (Some s1) = Options_IsEmpty h1 (Some s1) \<and>
            Options_Bytes (h1[a := m]) (Some s1) = Options_Bytes h1 (Some s1))))"
proof (rule conjI; rule impI)
  assume v: "valid_ref h (values s)"
  let ?h1 = "h @ [deref h (values s)]"
  have d: "deref (?h1[length h := m]) (values s) = deref h (values s)" for m
    using deref_append [OF v, of m] by simp
  have obs: "Options_Get (?h1[length h := m]) (Some s) key = Options_Get h (Some s) key \<and>
            Options_Has (?h1[length h := m]) (Some s) key = Options_Has h (Some s) key \<and>
            Options_IsEmpty (?h1[length h := m]) (Some s) = Options_IsEmpty h (Some s) \<and>
            Options_Bytes (?h1[length h := m]) (Some s) = Options_Bytes h (Some s)" for m key
    by (simp only: Options_Get_deref Options_Has_deref Options_IsEmpty_def Options_Bytes_def
        option.case d [of m])
  have "cell ?h1 (length h) = deref h (values s)" by (simp add: cell_def)
  with Options_ToMap_eq [OF v] obs
  show "\<exists>h1 r. Options_ToMap h (Some s) = (h1, r) \<and> cell h1 r = deref h (values s) \<and>
         (\<forall>m key.
            Options_Get (h1[r := m]) (Some s) key = Options_Get h (Some s) key \<and>
            Options_Has (h1[r := m]) (Some s) key = Options_Has h (Some s) key \<and>
            Options_IsEmpty (h1[r := m]) (Some s) = Options_IsEmpty h (Some s) \<and>
            Options_Bytes (h1[r := m]) (Some s) = Options_Bytes h (Some s))"
    by blast
next
  assume v: "valid_ref h (Some a)"
  then have a: "a < length h" by (simp add: valid_ref_def)
  let ?h1 = "h @ [cell h a]"
  let ?s1 = "\<lparr>mapping = None, values = Some (length h)\<rparr>"
  have d: "deref (?h1[a := m]) (values ?s1) = deref ?h1 (values ?s1)" for m
    using a by (simp add: deref_def cell_def nth_append)
  have obs: "Options_Get (?h1[a := m]) (Some ?s1) key = Options_Get ?h1 (Some ?s1) key \<and>
            Options_Has (?h1[a := m]) (Some ?s1) key = Options_Has ?h1 (Some ?s1) key \<and>
            Options_IsEmpty (?h1[a := m]) (Some ?s1) = Options_IsEmpty ?h1 (Some ?s1) \<and>
            Options_Bytes (?h1[a := m]) (Some ?s1) = Options_Bytes ?h1 (Some ?s1)" for m key
    using d [of m]
    by (simp only: Options_Get_deref Options_Has_deref Options_IsEmpty_def Options_Bytes_def
        option.case)
  have "deref ?h1 (values ?s1) = cell h a" by (simp add: deref_def cell_def)
  with NewOptions_eq [OF v] obs
  show "\<exists>h1 s1. NewOptions h (Some a) = (h1, s1) \<and> deref h1 (values s1) = cell h a \<and>
         (\<forall>m key.
            Options_Get (h1[a := m]) (Some s1) key = Options_Get h1 (Some s1) key \<and>
            Options_Has (h1[a := m]) (Some s1) key = Options_Has h1 (Some s1) key \<and>
            Options_IsEmpty (h1[a := m]) (Some s1) = Options_IsEmpty h1 (Some s1) \<and>
            Options_Bytes (h1[a := m]) (Some s1) = Options_Bytes h1 (Some s1))"
    by blast
qed

theorem ToMap_NewOptions_independent_witness:
  "valid_ref [[(''a'', ''1''), (''b'', ''2'')]] (Some 0) \<and>
   Options_ToMap [[(''a'', ''1''), (''b'', ''2'')]] (Some \<lparr>mapping = None, values = Some 0\<rparr>)
     = ([[(''a'', ''1''), (''b'', ''2'')], [(''a'', ''1''), (''b'', ''2'')]], 1) \<and>
   Options_Has [[(''a'', ''1''), (''b'', ''2'')], [(''a'', ''1''), (''b'', ''2''), (''c'', ''3'')]]
     (Some \<lparr>mapping = None, values = Some 0\<rparr>) ''c''
     = Options_Has [[(''a'', ''1''), (''b'', ''2'')]] (Some \<lparr>mapping = None, values = Some 0\<rparr>) ''c'' \<and>
   NewOptions [[(''a'', ''1''), (''b'', ''2'')]] (Some 0)
     = ([[(''a'', ''1''), (''b'', ''2'')], [(''a'', ''1''), (''b'', ''2'')]],
        \<lparr>mapping = None, values = Some 1\<rparr>) \<and>
   Options_Get [[(''a'', ''9''), (''b'', ''2'')], [(''a'', ''1''), (''b'', ''2'')]]
     (Some \<lparr>mapping = None, values = Some 1\<rparr>) ''a''
     = Options_Get [[(''a'', ''1''), (''b'', ''2'')], [(''a'', ''1''), (''b'', ''2'')]]
         (Some \<lparr>mapping = None, values = Some 1\<rparr>) ''a''"
proof -
  let ?h = "[[(''a'', ''1''), (''b'', ''2'')]] :: heap"
  let ?h1 = "[[(''a'', ''1''), (''b'', ''2'')], [(''a'', ''1''), (''b'', ''2'')]] :: heap"
  let ?s = "\<lparr>mapping = None, values = Some 0\<rparr>"
  let ?s1 = "\<lparr>mapping = None, values = Some 1\<rparr>"
  have v: "valid_ref ?h (Some 0)" by (simp add: valid_ref_def cell_def)
  have t: "Options_ToMap ?h (Some ?s) = (?h1, 1)"
    by (simp add: Options_ToMap_def make_map_def map_store_def cell_def)
  have n: "NewOptions ?h (Some 0) = (?h1, ?s1)"
    by (simp add: NewOptions_def make_map_def map_store_def cell_def)
  from ToMap_NewOptions_independent [of ?h ?s 0] v t n
  have f: "\<forall>m key. Options_Has (?h1[1 := m]) (Some ?s) key = Options_Has ?h (Some ?s) key"
    and g: "\<forall>m key. Options_Get (?h1[0 := m]) (Some ?s1) key = Options_Get ?h1 (Some ?s1) key"
    by simp_all
  from f [rule_format, of "[(''a'', ''1''), (''b'', ''2''), (''c'', ''3'')]" "''c''"]
    g [rule_format, of "[(''a'', ''9''), (''b'', ''2'')]" "''a''"] v t n
  show ?thesis by simp
qed

subsection \<open>The nil receiver\<close>

text \<open>
  Claim C5 asks that every helper, \<open>Set\<close> too, works on the nil receiver as on an empty
  mapping. \<open>Get\<close>, \<open>Has\<close>, \<open>IsEmpty\<close>, \<open>Bytes\<close>, \<open>Len\<close> and \<open>ToMap\<close> do, each giving on nil what
  it gives on \<open>EmptyOptions()\<close>; \<open>Set\<close> does not: on \<open>EmptyOptions()\<close> it stores the pair, on
  nil it faults.
\<close>

theorem Options_nil_receiver:
  "Options_Set h None key val = Inl Panic \<and>
   Options_Set (fst (EmptyOptions h)) (Some (snd (EmptyOptions h))) key val
     = Inr (h @ [[(key, val)]], \<lparr>mapping = None, values = Some (length h)\<rparr>) \<and>
   Options_Get h None key = [] \<and>
   Options_Get (fst (EmptyOptions h)) (Some (snd (EmptyOptions h))) key = [] \<and>
   Options_Has h None key = False \<and>
   Options_Has (fst (EmptyOptions h)) (Some (snd (EmptyOptions h))) key = False \<and>
   Options_IsEmpty h None = True \<and>
   Options_IsEmpty (fst (EmptyOptions h)) (Some (snd (EmptyOptions h))) = True \<and>
   Options_Bytes h None = Inr [0x00, 0x00] \<and>
   Options_Bytes (fst (EmptyOptions h)) (Some (snd (EmptyOptions h))) = Inr [0x00, 0x00] \<and>
   Options_Len h None = 2 \<and>
   Options_Len (fst (EmptyOptions h)) (Some (snd (EmptyOptions h))) = 2 \<and>
   Options_ToMap h None = (h @ [[]], length h)"
  by (simp add: Options_Set_def EmptyOptions_def make_map_def map_store_def cell_def
      Options_Get_def Options_Has_def Options_IsEmpty_def Options_Bytes_def Options_Len_def
      Options_ToMap_def deref_def map_get_def)

end
